theory Spec2Isabelle
  imports Main
begin

section \<open>Data model (App.tsx: Slide, Presentation)\<close>

text \<open>
  A string is a \<open>string\<close>, one \<open>char\<close> for each code unit; strings with a code
  unit at or above 256 are outside the model. Numbers that the code only uses as
  array positions or clock readings are integers (\<open>int\<close>): \<open>selectedSlideIndex - 1\<close>
  may be \<open>-1\<close>, and the code tests for it.
\<close>

datatype layout = Title | Content | Image | Split

record slide =
  slide_id :: string
  slide_title :: string
  content :: string
  imageUrl :: "string option"
  slide_theme :: string
  layout :: layout

record presentation =
  pres_id :: string
  pres_title :: string
  slides :: "slide list"
  pres_theme :: string
  createdAt :: string
  updatedAt :: string

subsection \<open>Template literals: the decimal text of an integer\<close>

definition digit_char :: "nat \<Rightarrow> char" where
  "digit_char d = ''0123456789'' ! d"

fun show_nat :: "nat \<Rightarrow> string" where
  "show_nat n = (if n < 10 then [digit_char n] else show_nat (n div 10) @ [digit_char (n mod 10)])"

declare show_nat.simps [simp del]

definition show_int :: "int \<Rightarrow> string" where
  "show_int i = (if i < 0 then CHR ''-'' # show_nat (nat (- i)) else show_nat (nat i))"

section \<open>Editor slide-list operations (PresentationEditor.tsx)\<close>

record editor =
  currentPresentation :: presentation
  selectedSlideIndex :: int

text \<open>\<open>Partial<Slide>\<close>: every key may be absent. The key \<open>imageUrl\<close> may also be
  present with the value \<open>undefined\<close> (the "remove image" button).\<close>

record slide_updates =
  upd_id :: "string option"
  upd_title :: "string option"
  upd_content :: "string option"
  upd_imageUrl :: "string option option"
  upd_theme :: "string option"
  upd_layout :: "layout option"

definition no_updates :: slide_updates where
  "no_updates = \<lparr>upd_id = None, upd_title = None, upd_content = None, upd_imageUrl = None,
     upd_theme = None, upd_layout = None\<rparr>"

text \<open>The object spread \<open>{ ...slide, ...updates }\<close>.\<close>

definition spread :: "slide \<Rightarrow> slide_updates \<Rightarrow> slide" where
  "spread s u =
     \<lparr>slide_id = (case upd_id u of None \<Rightarrow> slide_id s | Some v \<Rightarrow> v),
      slide_title = (case upd_title u of None \<Rightarrow> slide_title s | Some v \<Rightarrow> v),
      content = (case upd_content u of None \<Rightarrow> content s | Some v \<Rightarrow> v),
      imageUrl = (case upd_imageUrl u of None \<Rightarrow> imageUrl s | Some v \<Rightarrow> v),
      slide_theme = (case upd_theme u of None \<Rightarrow> slide_theme s | Some v \<Rightarrow> v),
      layout = (case upd_layout u of None \<Rightarrow> layout s | Some v \<Rightarrow> v)\<rparr>"

text \<open>\<open>xs.map((x, index) => ...)\<close> and \<open>xs.filter((x, index) => ...)\<close>.\<close>

definition map_index :: "('a \<Rightarrow> int \<Rightarrow> 'b) \<Rightarrow> 'a list \<Rightarrow> 'b list" where
  "map_index f xs = map (\<lambda>(index, x). f x (int index)) (enumerate 0 xs)"

definition filter_index :: "('a \<Rightarrow> int \<Rightarrow> bool) \<Rightarrow> 'a list \<Rightarrow> 'a list" where
  "filter_index P xs = map snd (filter (\<lambda>(index, x). P x (int index)) (enumerate 0 xs))"

text \<open>
  What can go wrong in a handler. \<open>TypeError\<close>: reading \<open>.title\<close> of \<open>undefined\<close>; the
  handler throws before any setter runs. \<open>UndefinedSlide\<close>: the swap of \<open>moveSlide\<close> would
  store \<open>undefined\<close> in the array (no exception in the source, but the array is no
  \<open>Slide[]\<close> afterwards, so the model stops there).
\<close>

datatype editor_error = TypeError | UndefinedSlide

datatype direction = Up | Down

definition updateSlide :: "slide_updates \<Rightarrow> editor \<Rightarrow> editor" where
  "updateSlide updates e =
     (let updatedSlides =
        map_index (\<lambda>slide index. if index = selectedSlideIndex e then spread slide updates else slide)
          (slides (currentPresentation e))
      in e\<lparr>currentPresentation := (currentPresentation e)\<lparr>slides := updatedSlides\<rparr>\<rparr>)"

definition addSlide :: "int \<Rightarrow> editor \<Rightarrow> editor" where
  "addSlide now e =
     (let newSlide =
        \<lparr>slide_id = ''slide-'' @ show_int now,
         slide_title = ''New Slide'',
         content = ''Add your content here...'',
         imageUrl = None,
         slide_theme = pres_theme (currentPresentation e),
         layout = Content\<rparr>;
        updatedSlides = slides (currentPresentation e) @ [newSlide]
      in \<lparr>currentPresentation = (currentPresentation e)\<lparr>slides := updatedSlides\<rparr>,
          selectedSlideIndex = int (length updatedSlides) - 1\<rparr>)"

definition duplicateSlide :: "int \<Rightarrow> editor \<Rightarrow> editor_error + editor" where
  "duplicateSlide now e =
     (let sel = selectedSlideIndex e; xs = slides (currentPresentation e) in
      if sel < 0 \<or> int (length xs) \<le> sel then Inl TypeError
      else
        let slideToClone = xs ! nat sel;
            newSlide = slideToClone
              \<lparr>slide_id := ''slide-'' @ show_int now,
               slide_title := slide_title slideToClone @ '' (Copy)''\<rparr>;
            updatedSlides = take (nat (sel + 1)) xs @ [newSlide] @ drop (nat (sel + 1)) xs
        in Inr \<lparr>currentPresentation = (currentPresentation e)\<lparr>slides := updatedSlides\<rparr>,
                selectedSlideIndex = sel + 1\<rparr>)"

definition deleteSlide :: "editor \<Rightarrow> editor" where
  "deleteSlide e =
     (if length (slides (currentPresentation e)) \<le> 1 then e
      else
        let updatedSlides =
              filter_index (\<lambda>_ index. index \<noteq> selectedSlideIndex e) (slides (currentPresentation e))
        in \<lparr>currentPresentation = (currentPresentation e)\<lparr>slides := updatedSlides\<rparr>,
            selectedSlideIndex = max 0 (selectedSlideIndex e - 1)\<rparr>)"

definition moveSlide :: "direction \<Rightarrow> editor \<Rightarrow> editor_error + editor" where
  "moveSlide dir e =
     (let xs = slides (currentPresentation e);
          currentIndex = selectedSlideIndex e;
          newIndex = (if dir = Up then currentIndex - 1 else currentIndex + 1)
      in if newIndex < 0 \<or> int (length xs) \<le> newIndex then Inr e
         else if currentIndex < 0 \<or> int (length xs) \<le> currentIndex then Inl UndefinedSlide
         else
           let swapped = xs[nat currentIndex := xs ! nat newIndex, nat newIndex := xs ! nat currentIndex]
           in Inr \<lparr>currentPresentation = (currentPresentation e)\<lparr>slides := swapped\<rparr>,
                   selectedSlideIndex = newIndex\<rparr>)"

text \<open>The buttons and inputs of the editor, and what each one calls.\<close>

datatype editor_op =
    AddSlide int
  | DuplicateSlide int
  | DeleteSlide
  | MoveSlide direction
  | UpdateSlide slide_updates
  | EditTitle string
  | EditTheme string

fun editor_step :: "editor_op \<Rightarrow> editor \<Rightarrow> editor_error + editor" where
  "editor_step (AddSlide now) e = Inr (addSlide now e)"
| "editor_step (DuplicateSlide now) e = duplicateSlide now e"
| "editor_step DeleteSlide e = Inr (deleteSlide e)"
| "editor_step (MoveSlide dir) e = moveSlide dir e"
| "editor_step (UpdateSlide updates) e = Inr (updateSlide updates e)"
| "editor_step (EditTitle t) e =
     Inr (e\<lparr>currentPresentation := (currentPresentation e)\<lparr>pres_title := t\<rparr>\<rparr>)"
| "editor_step (EditTheme t) e =
     Inr (e\<lparr>currentPresentation := (currentPresentation e)\<lparr>pres_theme := t\<rparr>\<rparr>)"

fun editor_run :: "editor_op list \<Rightarrow> editor \<Rightarrow> editor_error + editor" where
  "editor_run [] e = Inr e"
| "editor_run (op # ops) e =
     (case editor_step op e of Inl err \<Rightarrow> Inl err | Inr e' \<Rightarrow> editor_run ops e')"

text \<open>The selected index is a position of the slide list.\<close>

definition selection_valid :: "editor \<Rightarrow> bool" where
  "selection_valid e \<longleftrightarrow>
     0 \<le> selectedSlideIndex e \<and> selectedSlideIndex e < int (length (slides (currentPresentation e)))"

section \<open>Viewer navigation and playback (PresentationViewer)\<close>

subsection \<open>The render\<close>

text \<open>
  The body of the component runs from top to bottom on every render. Its \<open>const\<close>
  bindings are in scope from the start of the body, but reading one before its
  declaration has run throws a \<open>ReferenceError\<close>. A function body that only mentions a
  binding reads it when it is called, not when it is written; a dependency array is
  evaluated where it stands. Each statement of the body is given here by the names it
  declares and the names it reads while it runs.
\<close>

datatype viewer_error = ReferenceError string

record statement =
  declares :: "string list"
  reads :: "string list"

text \<open>What is bound before the body runs: the props, and the names of the module.\<close>

definition module_scope :: "string list" where
  "module_scope = [''presentation'', ''onBack'', ''themes'', ''useState'', ''useEffect'', ''useCallback'']"

definition viewer_body :: "statement list" where
  "viewer_body =
     [\<lparr>declares = [''currentSlideIndex'', ''setCurrentSlideIndex''], reads = [''useState'']\<rparr>,
      \<lparr>declares = [''isFullscreen'', ''setIsFullscreen''], reads = [''useState'']\<rparr>,
      \<lparr>declares = [''isAutoPlay'', ''setIsAutoPlay''], reads = [''useState'']\<rparr>,
      \<lparr>declares = [''showControls'', ''setShowControls''], reads = [''useState'']\<rparr>,
      \<lparr>declares = [''currentSlide''], reads = [''presentation'', ''currentSlideIndex'']\<rparr>,
      \<lparr>declares = [''themeColors''], reads = [''themes'', ''presentation'']\<rparr>,
      \<lparr>declares = [], reads = [''useEffect'', ''isAutoPlay'', ''presentation'']\<rparr>,
      \<lparr>declares = [],
        reads = [''useEffect'', ''isFullscreen'', ''nextSlide'', ''prevSlide'', ''onBack'',
                 ''toggleFullscreen'', ''restart'']\<rparr>,
      \<lparr>declares = [], reads = [''useEffect'', ''isFullscreen'', ''currentSlideIndex'']\<rparr>,
      \<lparr>declares = [''nextSlide''], reads = [''useCallback'', ''currentSlideIndex'', ''presentation'']\<rparr>,
      \<lparr>declares = [''prevSlide''], reads = [''useCallback'', ''currentSlideIndex'']\<rparr>,
      \<lparr>declares = [''restart''], reads = [''useCallback'']\<rparr>,
      \<lparr>declares = [''toggleFullscreen''], reads = [''useCallback'', ''isFullscreen'']\<rparr>,
      \<lparr>declares = [''exitFullscreen''], reads = []\<rparr>,
      \<lparr>declares = [''toggleAutoPlay''], reads = []\<rparr>,
      \<lparr>declares = [''renderSlideContent''], reads = []\<rparr>,
      \<lparr>declares = [],
        reads = [''isFullscreen'', ''showControls'', ''onBack'', ''presentation'', ''currentSlideIndex'',
                 ''restart'', ''toggleAutoPlay'', ''isAutoPlay'', ''toggleFullscreen'',
                 ''renderSlideContent'', ''currentSlide'', ''themeColors'', ''prevSlide'',
                 ''nextSlide'']\<rparr>]"

fun run_body :: "string list \<Rightarrow> statement list \<Rightarrow> viewer_error + string list" where
  "run_body bound [] = Inr bound"
| "run_body bound (st # sts) =
     (case filter (\<lambda>name. name \<notin> set bound) (reads st) of
        [] \<Rightarrow> run_body (bound @ declares st) sts
      | name # _ \<Rightarrow> Inl (ReferenceError name))"

subsection \<open>The state\<close>

text \<open>
  The state of a viewer: the four \<open>useState\<close> cells, and the two timers that the effects
  own. A pending timer is the number of milliseconds until it fires; \<open>None\<close> is no timer
  (never set, cleared, or a timeout that has fired). \<open>initial_viewer\<close> holds the values
  that the \<open>useState\<close> calls of the first render are given; \<open>mount\<close> is the first render,
  which gives that state when the body runs to its end. The transitions below are the
  handlers and the effects of the component, each taken as a function of this state and
  of the presentation it was given.
\<close>

record viewer =
  currentSlideIndex :: int
  isFullscreen :: bool
  isAutoPlay :: bool
  showControls :: bool
  interval :: "nat option"
  timeout :: "nat option"

definition initial_viewer :: viewer where
  "initial_viewer =
     \<lparr>currentSlideIndex = 0, isFullscreen = False, isAutoPlay = False, showControls = True,
      interval = None, timeout = None\<rparr>"

definition mount :: "presentation \<Rightarrow> viewer_error + viewer" where
  "mount p = (case run_body module_scope viewer_body of Inl e \<Rightarrow> Inl e | Inr _ \<Rightarrow> Inr initial_viewer)"

subsection \<open>Handlers\<close>

definition nextSlide :: "presentation \<Rightarrow> viewer \<Rightarrow> viewer" where
  "nextSlide p v =
     (if currentSlideIndex v < int (length (slides p)) - 1
      then v\<lparr>currentSlideIndex := currentSlideIndex v + 1\<rparr> else v)"

definition prevSlide :: "viewer \<Rightarrow> viewer" where
  "prevSlide v =
     (if currentSlideIndex v > 0 then v\<lparr>currentSlideIndex := currentSlideIndex v - 1\<rparr> else v)"

definition restart :: "viewer \<Rightarrow> viewer" where
  "restart v = v\<lparr>currentSlideIndex := 0, isAutoPlay := False\<rparr>"

definition exitFullscreen :: "viewer \<Rightarrow> viewer" where
  "exitFullscreen v = v\<lparr>isFullscreen := False\<rparr>"

definition toggleFullscreen :: "viewer \<Rightarrow> viewer" where
  "toggleFullscreen v = (if \<not> isFullscreen v then v\<lparr>isFullscreen := True\<rparr> else exitFullscreen v)"

definition toggleAutoPlay :: "viewer \<Rightarrow> viewer" where
  "toggleAutoPlay v = v\<lparr>isAutoPlay := \<not> isAutoPlay v\<rparr>"

definition onMouseMove :: "viewer \<Rightarrow> viewer" where
  "onMouseMove v = v\<lparr>showControls := True\<rparr>"

text \<open>The \<open>Escape\<close> key: leaves fullscreen, or calls \<open>onBack\<close>, which belongs to the
  parent and changes nothing in the viewer's own state.\<close>

definition onEscape :: "viewer \<Rightarrow> viewer" where
  "onEscape v = (if isFullscreen v then exitFullscreen v else v)"

text \<open>The callback of \<open>setInterval\<close> (the updater of \<open>setCurrentSlideIndex\<close> and the
  \<open>setIsAutoPlay(false)\<close> inside it), and the callback of \<open>setTimeout\<close>.\<close>

definition intervalCallback :: "presentation \<Rightarrow> viewer \<Rightarrow> viewer" where
  "intervalCallback p v =
     (if currentSlideIndex v \<ge> int (length (slides p)) - 1
      then v\<lparr>isAutoPlay := False\<rparr>
      else v\<lparr>currentSlideIndex := currentSlideIndex v + 1\<rparr>)"

definition timeoutCallback :: "viewer \<Rightarrow> viewer" where
  "timeoutCallback v = v\<lparr>showControls := False, timeout := None\<rparr>"

subsection \<open>Effects\<close>

text \<open>
  An effect runs after a render in which one of its dependencies has changed: first the
  cleanup of its previous run (\<open>clearInterval\<close>, \<open>clearTimeout\<close>), then its body.
  \<open>presentation.slides.length\<close> is fixed while the viewer is mounted.
\<close>

definition autoplayEffect :: "viewer \<Rightarrow> viewer" where
  "autoplayEffect v = (if isAutoPlay v then v\<lparr>interval := Some 5000\<rparr> else v\<lparr>interval := None\<rparr>)"

definition controlsEffect :: "viewer \<Rightarrow> viewer" where
  "controlsEffect v =
     (if isFullscreen v then v\<lparr>timeout := Some 3000\<rparr>
      else v\<lparr>timeout := None, showControls := True\<rparr>)"

definition run_effects :: "viewer \<Rightarrow> viewer \<Rightarrow> viewer" where
  "run_effects old new =
     (let v1 = (if isAutoPlay new \<noteq> isAutoPlay old then autoplayEffect new else new);
          v2 = (if isFullscreen v1 \<noteq> isFullscreen old \<or> currentSlideIndex v1 \<noteq> currentSlideIndex old
                then controlsEffect v1 else v1)
      in v2)"

subsection \<open>Time\<close>

text \<open>
  One millisecond passes: both timers come one millisecond closer. A timer that reaches
  zero fires: the interval runs its callback and stays armed for its next period, the
  timeout runs its callback and is gone. The callbacks that are due in one millisecond
  all run before the next render; the effects of that render come after them.
\<close>

definition ms_step :: "presentation \<Rightarrow> viewer \<Rightarrow> viewer" where
  "ms_step p v =
     (let v0 = v\<lparr>interval := map_option (\<lambda>t. t - 1) (interval v),
                 timeout := map_option (\<lambda>t. t - 1) (timeout v)\<rparr>;
          v1 = (if interval v0 = Some 0 then intervalCallback p (v0\<lparr>interval := Some 5000\<rparr>) else v0);
          v2 = (if timeout v0 = Some 0 then timeoutCallback v1 else v1)
      in run_effects v0 v2)"

primrec elapse :: "nat \<Rightarrow> presentation \<Rightarrow> viewer \<Rightarrow> viewer" where
  "elapse 0 p v = v"
| "elapse (Suc ms) p v = elapse ms p (ms_step p v)"

subsection \<open>Events\<close>

datatype viewer_event =
    NextSlide | PrevSlide | Restart | ToggleAutoPlay | ToggleFullscreen | Escape | MouseMove
  | Elapse nat

fun handler :: "presentation \<Rightarrow> viewer_event \<Rightarrow> viewer \<Rightarrow> viewer" where
  "handler p NextSlide v = nextSlide p v"
| "handler p PrevSlide v = prevSlide v"
| "handler p Restart v = restart v"
| "handler p ToggleAutoPlay v = toggleAutoPlay v"
| "handler p ToggleFullscreen v = toggleFullscreen v"
| "handler p Escape v = onEscape v"
| "handler p MouseMove v = onMouseMove v"
| "handler p (Elapse ms) v = v"

fun viewer_step :: "presentation \<Rightarrow> viewer_event \<Rightarrow> viewer \<Rightarrow> viewer" where
  "viewer_step p (Elapse ms) v = elapse ms p v"
| "viewer_step p ev v = run_effects v (handler p ev v)"

fun viewer_run :: "presentation \<Rightarrow> viewer_event list \<Rightarrow> viewer \<Rightarrow> viewer" where
  "viewer_run p [] v = v"
| "viewer_run p (ev # evs) v = viewer_run p evs (viewer_step p ev v)"

text \<open>The slide index is a position of the deck.\<close>

definition index_valid :: "presentation \<Rightarrow> viewer \<Rightarrow> bool" where
  "index_valid p v \<longleftrightarrow> 0 \<le> currentSlideIndex v \<and> currentSlideIndex v \<le> int (length (slides p)) - 1"

section \<open>Generation of a deck (App: createPresentation)\<close>

text \<open>
  The objects that the generation gateway returns, and the \<open>slides\<close> that
  \<open>createPresentation\<close> builds from them. \<open>now index\<close> is what \<open>Date.now()\<close> returns while
  the element at \<open>index\<close> is mapped.
\<close>

record slide_data =
  sd_title :: string
  sd_content :: string
  sd_layout :: layout

definition createPresentation_slides :: "(int \<Rightarrow> int) \<Rightarrow> slide_data list \<Rightarrow> slide list" where
  "createPresentation_slides now slideData =
     map_index (\<lambda>slide index.
        \<lparr>slide_id = ''slide-'' @ show_int (now index) @ ''-'' @ show_int index,
         slide_title = sd_title slide,
         content = sd_content slide,
         imageUrl = None,
         slide_theme = ''modern'',
         layout = sd_layout slide\<rparr>) slideData"

subsection \<open>A generated deck of three slides, open in the editor\<close>

definition demo_deck :: presentation where
  "demo_deck =
     \<lparr>pres_id = ''pres-1700000000000'', pres_title = ''Demo'',
      slides = createPresentation_slides (\<lambda>_. 1700000000000)
        [\<lparr>sd_title = ''A'', sd_content = ''a'', sd_layout = Title\<rparr>,
         \<lparr>sd_title = ''B'', sd_content = ''b'', sd_layout = Content\<rparr>,
         \<lparr>sd_title = ''C'', sd_content = ''c'', sd_layout = Split\<rparr>],
      pres_theme = ''modern'', createdAt = ''2023-11-14T22:13:20.000Z'',
      updatedAt = ''2023-11-14T22:13:20.000Z''\<rparr>"

definition demo_editor :: editor where
  "demo_editor = \<lparr>currentPresentation = demo_deck, selectedSlideIndex = 1\<rparr>"

text \<open>The slide that \<open>addSlide\<close> appends to this deck when the clock reads
  1700000005000, and the two copies that \<open>duplicateSlide\<close> makes of the second slide and
  then of that copy, at the same reading.\<close>

definition added_slide :: slide where
  "added_slide =
     \<lparr>slide_id = ''slide-1700000005000'', slide_title = ''New Slide'',
      content = ''Add your content here...'', imageUrl = None, slide_theme = ''modern'',
      layout = Content\<rparr>"

definition first_copy :: slide where
  "first_copy =
     \<lparr>slide_id = ''slide-1700000005000'', slide_title = ''B (Copy)'', content = ''b'',
      imageUrl = None, slide_theme = ''modern'', layout = Content\<rparr>"

definition second_copy :: slide where
  "second_copy =
     \<lparr>slide_id = ''slide-1700000005000'', slide_title = ''B (Copy) (Copy)'', content = ''b'',
      imageUrl = None, slide_theme = ''modern'', layout = Content\<rparr>"

text \<open>The same deck cut to its first two slides.\<close>

definition two_deck :: presentation where
  "two_deck = demo_deck\<lparr>slides := take 2 (slides demo_deck)\<rparr>"

text \<open>A deck of one slide, open in the editor.\<close>

definition single_editor :: editor where
  "single_editor =
     \<lparr>currentPresentation = demo_deck\<lparr>slides := take 1 (slides demo_deck)\<rparr>,
      selectedSlideIndex = 0\<rparr>"

section \<open>Persistence (App: loadPresentations, openPresentation, savePresentation)\<close>

subsection \<open>The text form of a slide list (JSON.stringify, JSON.parse)\<close>

text \<open>
  A string of the model is a string of the program whose code units are all below 256,
  one \<open>char\<close> for each code unit.

  \<open>JSON.stringify\<close> on a \<open>Slide[]\<close>: an array of objects whose members are strings,
  without white space. The keys come in the order in which the program creates them (\<open>id\<close>,
  \<open>title\<close>, \<open>content\<close>, \<open>theme\<close>, \<open>layout\<close>, and \<open>imageUrl\<close> last, once an update has
  added it); a key whose value is \<open>undefined\<close> is left out. In a string, the quote and the
  backslash are escaped with a backslash, the control characters below 0x20 as \<open>\b\<close>,
  \<open>\t\<close>, \<open>\n\<close>, \<open>\f\<close>, \<open>\r\<close> or as \<open>\u00XX\<close> in lower-case hexadecimal, and every other
  code unit stands for itself. (The quote is \<open>CHR 0x22\<close>, the backslash \<open>CHR 0x5C\<close>.)
\<close>

definition hex_digit :: "nat \<Rightarrow> char" where
  "hex_digit d = ''0123456789abcdef'' ! d"

definition escape_char :: "char \<Rightarrow> string" where
  "escape_char c =
     (if c = CHR 0x08 then [CHR 0x5C, CHR ''b'']
      else if c = CHR 0x09 then [CHR 0x5C, CHR ''t'']
      else if c = CHR 0x0A then [CHR 0x5C, CHR ''n'']
      else if c = CHR 0x0C then [CHR 0x5C, CHR ''f'']
      else if c = CHR 0x0D then [CHR 0x5C, CHR ''r'']
      else if c = CHR 0x22 then [CHR 0x5C, CHR 0x22]
      else if c = CHR 0x5C then [CHR 0x5C, CHR 0x5C]
      else if (of_char c :: nat) < 32
        then [CHR 0x5C, CHR ''u'', CHR ''0'', CHR ''0'',
              hex_digit ((of_char c :: nat) div 16), hex_digit ((of_char c :: nat) mod 16)]
      else [c])"

definition quote :: "string \<Rightarrow> string" where
  "quote s = CHR 0x22 # concat (map escape_char s) @ [CHR 0x22]"

fun layout_text :: "layout \<Rightarrow> string" where
  "layout_text Title = ''title''"
| "layout_text Content = ''content''"
| "layout_text Image = ''image''"
| "layout_text Split = ''split''"

definition member :: "string \<Rightarrow> string \<Rightarrow> string" where
  "member key val = quote key @ '':'' @ quote val"

definition stringify_slide :: "slide \<Rightarrow> string" where
  "stringify_slide sl =
     ''{'' @ member ''id'' (slide_id sl)
     @ '','' @ member ''title'' (slide_title sl)
     @ '','' @ member ''content'' (content sl)
     @ '','' @ member ''theme'' (slide_theme sl)
     @ '','' @ member ''layout'' (layout_text (layout sl))
     @ (case imageUrl sl of None \<Rightarrow> [] | Some url \<Rightarrow> '','' @ member ''imageUrl'' url)
     @ ''}''"

fun join_elements :: "string list \<Rightarrow> string" where
  "join_elements [] = []"
| "join_elements [x] = x"
| "join_elements (x # y # ys) = x @ '','' @ join_elements (y # ys)"

definition JSON_stringify :: "slide list \<Rightarrow> string" where
  "JSON_stringify xs = ''['' @ join_elements (map stringify_slide xs) @ '']''"

subsection \<open>Reading a text (JSON.parse)\<close>

text \<open>
  The value that \<open>JSON.parse\<close> reads. A string is the list of its code units, which an
  escape \<open>\uXXXX\<close> can take up to 0xFFFF. A number is kept as it is written. An object is
  kept as its members in the order read; of two members with one key the program sees the
  later one.
\<close>

datatype json =
    JNull
  | JBool bool
  | JNumber string
  | JString "nat list"
  | JArray "json list"
  | JObject "(nat list \<times> json) list"

datatype token =
    LBrace | RBrace | LBracket | RBracket | Colon | Comma
  | TString "nat list" | TNumber string | TTrue | TFalse | TNull

definition is_ws :: "char \<Rightarrow> bool" where
  "is_ws c \<longleftrightarrow> c = CHR 0x20 \<or> c = CHR 0x09 \<or> c = CHR 0x0A \<or> c = CHR 0x0D"

definition is_digit :: "char \<Rightarrow> bool" where
  "is_digit c \<longleftrightarrow> 48 \<le> (of_char c :: nat) \<and> (of_char c :: nat) \<le> 57"

definition is_number_char :: "char \<Rightarrow> bool" where
  "is_number_char c \<longleftrightarrow>
     is_digit c \<or> c = CHR ''-'' \<or> c = CHR ''+'' \<or> c = CHR ''.'' \<or> c = CHR ''e'' \<or> c = CHR ''E''"

text \<open>The grammar of a number: an optional minus, \<open>0\<close> or a digit from 1 to 9 and more
  digits, an optional fraction (a point and one digit or more), an optional exponent
  (\<open>e\<close> or \<open>E\<close>, an optional sign, one digit or more).\<close>

definition exponent_part :: "string \<Rightarrow> bool" where
  "exponent_part cs =
     (case cs of
        [] \<Rightarrow> True
      | c # cs1 \<Rightarrow>
          if c = CHR ''e'' \<or> c = CHR ''E'' then
            (let ds = (case cs1 of
                         [] \<Rightarrow> []
                       | s # cs2 \<Rightarrow> if s = CHR ''+'' \<or> s = CHR ''-'' then cs2 else cs1)
             in ds \<noteq> [] \<and> list_all is_digit ds)
          else False)"

definition fraction_part :: "string \<Rightarrow> bool" where
  "fraction_part cs =
     (case cs of
        [] \<Rightarrow> True
      | c # cs1 \<Rightarrow>
          if c = CHR ''.'' then takeWhile is_digit cs1 \<noteq> [] \<and> exponent_part (dropWhile is_digit cs1)
          else exponent_part cs)"

definition valid_number :: "string \<Rightarrow> bool" where
  "valid_number cs =
     (let cs1 = (case cs of [] \<Rightarrow> [] | c # r \<Rightarrow> if c = CHR ''-'' then r else cs) in
      case cs1 of
        [] \<Rightarrow> False
      | d # r \<Rightarrow>
          if d = CHR ''0'' then fraction_part r
          else if is_digit d then fraction_part (dropWhile is_digit r)
          else False)"

definition hex_value :: "char \<Rightarrow> nat option" where
  "hex_value c =
     (let n = (of_char c :: nat) in
      if 48 \<le> n \<and> n \<le> 57 then Some (n - 48)
      else if 97 \<le> n \<and> n \<le> 102 then Some (n - 87)
      else if 65 \<le> n \<and> n \<le> 70 then Some (n - 55)
      else None)"

definition unicode_escape :: "char \<Rightarrow> char \<Rightarrow> char \<Rightarrow> char \<Rightarrow> nat option" where
  "unicode_escape a b c d =
     (case (hex_value a, hex_value b, hex_value c, hex_value d) of
        (Some w, Some x, Some y, Some z) \<Rightarrow> Some (4096 * w + 256 * x + 16 * y + z)
      | _ \<Rightarrow> None)"

definition simple_escape :: "char \<Rightarrow> nat option" where
  "simple_escape e =
     (if e = CHR 0x22 then Some 0x22
      else if e = CHR 0x5C then Some 0x5C
      else if e = CHR ''/'' then Some 0x2F
      else if e = CHR ''b'' then Some 0x08
      else if e = CHR ''f'' then Some 0x0C
      else if e = CHR ''n'' then Some 0x0A
      else if e = CHR ''r'' then Some 0x0D
      else if e = CHR ''t'' then Some 0x09
      else None)"

text \<open>The characters of a string after its opening quote, up to the closing quote;
  the result is the string and the text after the closing quote.\<close>

fun string_body :: "string \<Rightarrow> (nat list \<times> string) option" where
  "string_body [] = None"
| "string_body (c # cs) =
     (if c = CHR 0x22 then Some ([], cs)
      else if c = CHR 0x5C then
        (case cs of
           [] \<Rightarrow> None
         | e # cs1 \<Rightarrow>
             if e = CHR ''u'' then
               (case cs1 of
                  h1 # h2 # h3 # h4 # cs2 \<Rightarrow>
                    (case unicode_escape h1 h2 h3 h4 of
                       None \<Rightarrow> None
                     | Some u \<Rightarrow>
                         (case string_body cs2 of
                            None \<Rightarrow> None
                          | Some (s, rest) \<Rightarrow> Some (u # s, rest)))
                | _ \<Rightarrow> None)
             else
               (case simple_escape e of
                  None \<Rightarrow> None
                | Some u \<Rightarrow>
                    (case string_body cs1 of
                       None \<Rightarrow> None
                     | Some (s, rest) \<Rightarrow> Some (u # s, rest))))
      else if (of_char c :: nat) < 32 then None
      else
        (case string_body cs of
           None \<Rightarrow> None
         | Some (s, rest) \<Rightarrow> Some (of_char c # s, rest)))"

lemma string_body_shorter_upto:
  "length cs \<le> n \<Longrightarrow> string_body cs = Some (s, rest) \<Longrightarrow> length rest < length cs"
proof (induction n arbitrary: cs s rest)
  case 0
  then show ?case by simp
next
  case (Suc n)
  from Suc.prems show ?case
    by (cases cs) (auto split: if_splits list.splits option.splits dest!: Suc.IH [rotated])
qed

lemma string_body_shorter: "string_body cs = Some (s, rest) \<Longrightarrow> length rest < length cs"
  by (rule string_body_shorter_upto [OF order_refl])

text \<open>
  The tokens of a text. White space (space, tab, line feed, carriage return) may stand
  before and after every token. A number is the longest run of characters that numbers
  are written with, which must then be a number; no token that may follow a number starts
  with such a character.
\<close>

function lex :: "string \<Rightarrow> token list option" where
  "lex cs =
     (case cs of
        [] \<Rightarrow> Some []
      | c # cs1 \<Rightarrow>
          if is_ws c then lex cs1
          else if c = CHR ''{'' then map_option (Cons LBrace) (lex cs1)
          else if c = CHR ''}'' then map_option (Cons RBrace) (lex cs1)
          else if c = CHR ''['' then map_option (Cons LBracket) (lex cs1)
          else if c = CHR '']'' then map_option (Cons RBracket) (lex cs1)
          else if c = CHR '':'' then map_option (Cons Colon) (lex cs1)
          else if c = CHR '','' then map_option (Cons Comma) (lex cs1)
          else if c = CHR 0x22 then
            (case string_body cs1 of
               None \<Rightarrow> None
             | Some (s, rest) \<Rightarrow> map_option (Cons (TString s)) (lex rest))
          else if c = CHR ''-'' \<or> is_digit c then
            (if valid_number (takeWhile is_number_char cs)
             then map_option (Cons (TNumber (takeWhile is_number_char cs)))
                    (lex (dropWhile is_number_char cs))
             else None)
          else if take 4 cs = ''true'' then map_option (Cons TTrue) (lex (drop 4 cs))
          else if take 5 cs = ''false'' then map_option (Cons TFalse) (lex (drop 5 cs))
          else if take 4 cs = ''null'' then map_option (Cons TNull) (lex (drop 4 cs))
          else None)"
  by pat_completeness auto
termination
proof (relation "measure length", goal_cases)
  case 1
  show ?case by simp
next
  case (2 cs c cs1)
  then show ?case by simp
next
  case (3 cs c cs1)
  then show ?case by simp
next
  case (4 cs c cs1)
  then show ?case by simp
next
  case (5 cs c cs1)
  then show ?case by simp
next
  case (6 cs c cs1)
  then show ?case by simp
next
  case (7 cs c cs1)
  then show ?case by simp
next
  case (8 cs c cs1)
  then show ?case by simp
next
  case (9 cs c cs1 x2 s rest)
  then show ?case by (auto dest!: string_body_shorter)
next
  case (10 cs c cs1)
  then have "is_number_char c" by (auto simp add: is_number_char_def)
  with 10 show ?case by (simp add: le_imp_less_Suc length_dropWhile_le)
next
  case (11 cs c cs1)
  then show ?case by simp
next
  case (12 cs c cs1)
  then show ?case by simp
next
  case (13 cs c cs1)
  then show ?case by simp
qed

declare lex.simps [simp del]

text \<open>
  The grammar, read token by token. A frame is an array or an object that is open and
  waits for a value: the elements read so far, or the members read so far and the key of
  the member being read (both latest first). A state says what may come next.
\<close>

datatype frame = FArr "json list" | FObj "(nat list \<times> json) list" "nat list"

datatype pstate =
    Value "frame list"
  | FirstElem "frame list"
  | InArray "json list" "frame list"
  | FirstKey "frame list"
  | InObject "(nat list \<times> json) list" "frame list"
  | NextKey "(nat list \<times> json) list" "frame list"
  | AfterKey "(nat list \<times> json) list" "nat list" "frame list"
  | Done json

text \<open>A value is complete: it is the whole text, or the next element of the array, or
  the value of the member, that waits for it.\<close>

fun complete :: "json \<Rightarrow> frame list \<Rightarrow> pstate" where
  "complete v [] = Done v"
| "complete v (FArr es # st) = InArray (v # es) st"
| "complete v (FObj ms k # st) = InObject ((k, v) # ms) st"

fun start_value :: "token \<Rightarrow> frame list \<Rightarrow> pstate option" where
  "start_value (TString s) st = Some (complete (JString s) st)"
| "start_value (TNumber n) st = Some (complete (JNumber n) st)"
| "start_value TTrue st = Some (complete (JBool True) st)"
| "start_value TFalse st = Some (complete (JBool False) st)"
| "start_value TNull st = Some (complete JNull st)"
| "start_value LBracket st = Some (FirstElem st)"
| "start_value LBrace st = Some (FirstKey st)"
| "start_value RBracket st = None"
| "start_value RBrace st = None"
| "start_value Colon st = None"
| "start_value Comma st = None"

fun step :: "pstate \<Rightarrow> token \<Rightarrow> pstate option" where
  "step (Value st) t = start_value t st"
| "step (FirstElem st) t =
     (if t = RBracket then Some (complete (JArray []) st) else start_value t (FArr [] # st))"
| "step (InArray es st) t =
     (if t = Comma then Some (Value (FArr es # st))
      else if t = RBracket then Some (complete (JArray (rev es)) st)
      else None)"
| "step (FirstKey st) t =
     (case t of
        TString k \<Rightarrow> Some (AfterKey [] k st)
      | RBrace \<Rightarrow> Some (complete (JObject []) st)
      | _ \<Rightarrow> None)"
| "step (InObject ms st) t =
     (if t = Comma then Some (NextKey ms st)
      else if t = RBrace then Some (complete (JObject (rev ms)) st)
      else None)"
| "step (NextKey ms st) t = (case t of TString k \<Rightarrow> Some (AfterKey ms k st) | _ \<Rightarrow> None)"
| "step (AfterKey ms k st) t = (if t = Colon then Some (Value (FObj ms k # st)) else None)"
| "step (Done v) t = None"

fun run_tokens :: "pstate \<Rightarrow> token list \<Rightarrow> pstate option" where
  "run_tokens s [] = Some s"
| "run_tokens s (t # ts) = (case step s t of None \<Rightarrow> None | Some s' \<Rightarrow> run_tokens s' ts)"

text \<open>\<open>None\<close> is the \<open>SyntaxError\<close> that \<open>JSON.parse\<close> throws.\<close>

definition JSON_parse :: "string \<Rightarrow> json option" where
  "JSON_parse text =
     (case lex text of
        None \<Rightarrow> None
      | Some ts \<Rightarrow> (case run_tokens (Value []) ts of Some (Done v) \<Rightarrow> Some v | _ \<Rightarrow> None))"

subsection \<open>From the value read to a slide list\<close>

text \<open>
  The program takes the value that \<open>JSON.parse\<close> returns for a \<open>Slide[]\<close> without looking
  at it. The value is one when it is an array of objects that have the keys \<open>id\<close>,
  \<open>title\<close>, \<open>content\<close>, \<open>theme\<close> and \<open>layout\<close>, may have the key \<open>imageUrl\<close> and have no
  other key, whose values are strings, the layout one of the four. The model has it as a
  slide list when, in addition, no code unit of these strings is above 255.
\<close>

definition units :: "string \<Rightarrow> nat list" where
  "units s = map of_char s"

definition string_of_units :: "nat list \<Rightarrow> string option" where
  "string_of_units us = (if list_all (\<lambda>u. u < 256) us then Some (map char_of us) else None)"

definition layout_of_text :: "string \<Rightarrow> layout option" where
  "layout_of_text t =
     (if t = ''title'' then Some Title
      else if t = ''content'' then Some Content
      else if t = ''image'' then Some Image
      else if t = ''split'' then Some Split
      else None)"

definition slide_keys :: "nat list list" where
  "slide_keys = map units [''id'', ''title'', ''content'', ''theme'', ''layout'', ''imageUrl'']"

definition string_member :: "(nat list \<times> json) list \<Rightarrow> string \<Rightarrow> string option" where
  "string_member ms key =
     (case map_of (rev ms) (units key) of
        Some (JString us) \<Rightarrow> string_of_units us
      | _ \<Rightarrow> None)"

definition slide_of_json :: "json \<Rightarrow> slide option" where
  "slide_of_json v =
     (case v of
        JObject ms \<Rightarrow>
          if \<not> list_all (\<lambda>k. k \<in> set slide_keys) (map fst ms) then None
          else
            (case (string_member ms ''id'', string_member ms ''title'', string_member ms ''content'',
                   string_member ms ''theme'', string_member ms ''layout'') of
               (Some i, Some t, Some c, Some th, Some l) \<Rightarrow>
                 (case layout_of_text l of
                    None \<Rightarrow> None
                  | Some lay \<Rightarrow>
                      (case map_of (rev ms) (units ''imageUrl'') of
                         None \<Rightarrow>
                           Some \<lparr>slide_id = i, slide_title = t, content = c, imageUrl = None,
                                 slide_theme = th, layout = lay\<rparr>
                       | Some _ \<Rightarrow>
                           (case string_member ms ''imageUrl'' of
                              None \<Rightarrow> None
                            | Some url \<Rightarrow>
                                Some \<lparr>slide_id = i, slide_title = t, content = c, imageUrl = Some url,
                                      slide_theme = th, layout = lay\<rparr>)))
             | _ \<Rightarrow> None)
      | _ \<Rightarrow> None)"

definition slides_of_json :: "json \<Rightarrow> slide list option" where
  "slides_of_json v = (case v of JArray vs \<Rightarrow> those (map slide_of_json vs) | _ \<Rightarrow> None)"

text \<open>What \<open>JSON.parse\<close> does with a stored text, as far as the program can tell: it
  throws, or returns a slide list, or returns a value that is no slide list of the
  model.\<close>

datatype parse_outcome = Throws | Slides "slide list" | NotSlides

definition JSON_parse_slides :: "string \<Rightarrow> parse_outcome" where
  "JSON_parse_slides text =
     (case JSON_parse text of
        None \<Rightarrow> Throws
      | Some v \<Rightarrow> (case slides_of_json v of None \<Rightarrow> NotSlides | Some xs \<Rightarrow> Slides xs))"

subsection \<open>The tokens and the value of a stringified slide list\<close>

definition member_tokens :: "string \<Rightarrow> string \<Rightarrow> token list" where
  "member_tokens key val = [TString (units key), Colon, TString (units val)]"

definition slide_tokens :: "slide \<Rightarrow> token list" where
  "slide_tokens sl =
     LBrace # member_tokens ''id'' (slide_id sl)
     @ Comma # member_tokens ''title'' (slide_title sl)
     @ Comma # member_tokens ''content'' (content sl)
     @ Comma # member_tokens ''theme'' (slide_theme sl)
     @ Comma # member_tokens ''layout'' (layout_text (layout sl))
     @ (case imageUrl sl of None \<Rightarrow> [] | Some url \<Rightarrow> Comma # member_tokens ''imageUrl'' url)
     @ [RBrace]"

fun join_tokens :: "token list list \<Rightarrow> token list" where
  "join_tokens [] = []"
| "join_tokens [x] = x"
| "join_tokens (x # y # ys) = x @ Comma # join_tokens (y # ys)"

definition json_of_slide :: "slide \<Rightarrow> json" where
  "json_of_slide sl =
     JObject
       ([(units ''id'', JString (units (slide_id sl))),
         (units ''title'', JString (units (slide_title sl))),
         (units ''content'', JString (units (content sl))),
         (units ''theme'', JString (units (slide_theme sl))),
         (units ''layout'', JString (units (layout_text (layout sl))))]
        @ (case imageUrl sl of None \<Rightarrow> [] | Some url \<Rightarrow> [(units ''imageUrl'', JString (units url))]))"

subsection \<open>The gateway and the state of App\<close>

text \<open>
  Modelled from the spec: the persistence gateway ("create(record), list(filter, order),
  update(id, partial record) - records are presentations with slide list serialized as an
  opaque text blob"), the object \<open>blink.db.presentations\<close> of an SDK outside the
  repository. A table of rows; a request either fails as a whole and changes nothing, or
  succeeds: \<open>update\<close> patches the rows with the given id, \<open>list\<close> gives the rows that
  match the filter, in the order of the table (no property here depends on \<open>orderBy\<close>).
  Whether a request succeeds is not in the program's hands: it is the argument \<open>ok\<close>.
\<close>

record db_row =
  row_id :: string
  row_title :: string
  row_slides :: string
  row_theme :: string
  row_userId :: string
  row_createdAt :: string
  row_updatedAt :: string

datatype app_error = RequestFailed | SyntaxError | NoUser

definition db_update :: "bool \<Rightarrow> string \<Rightarrow> (db_row \<Rightarrow> db_row) \<Rightarrow> db_row list \<Rightarrow> app_error + db_row list" where
  "db_update ok i patch table =
     (if ok then Inr (map (\<lambda>r. if row_id r = i then patch r else r) table) else Inl RequestFailed)"

definition db_list :: "bool \<Rightarrow> (db_row \<Rightarrow> bool) \<Rightarrow> db_row list \<Rightarrow> app_error + db_row list" where
  "db_list ok wh table = (if ok then Inr (filter wh table) else Inl RequestFailed)"

text \<open>The state of \<open>App\<close>: its \<open>useState\<close> cells, and what \<open>console.error\<close> has
  written. \<open>presentations\<close> holds the rows as the gateway lists them, the slides still a
  text.\<close>

record auth_user =
  user_id :: string

datatype view = Dashboard | Editor | Viewer

record app =
  user :: "auth_user option"
  loading :: bool
  currentView :: view
  currentPresentation_app :: "presentation option"
  presentations :: "db_row list"
  console :: "(string \<times> app_error) list"

definition console_error :: "string \<Rightarrow> app_error \<Rightarrow> app \<Rightarrow> app" where
  "console_error msg error s = s\<lparr>console := console s @ [(msg, error)]\<rparr>"

definition loadPresentations :: "bool \<Rightarrow> app \<times> db_row list \<Rightarrow> app \<times> db_row list" where
  "loadPresentations ok st =
     (case st of (s, table) \<Rightarrow>
        (case user s of
           None \<Rightarrow> (s, table)
         | Some u \<Rightarrow>
             (case db_list ok (\<lambda>r. row_userId r = user_id u) table of
                Inr data \<Rightarrow> (s\<lparr>presentations := data\<rparr>, table)
              | Inl error \<Rightarrow> (console_error ''Failed to load presentations:'' error s, table))))"

text \<open>
  \<open>openPresentation\<close>, with \<open>JSON.parse\<close> as its first argument. \<open>user.id\<close> with no user
  throws inside the \<open>try\<close> (\<open>NoUser\<close>), as does \<open>JSON.parse\<close> on a text it cannot read
  (\<open>SyntaxError\<close>). Where \<open>JSON.parse\<close> returns a value that is no slide list, the program
  stores it as the slides all the same and shows the editor; that state is no state of the
  model, which stops there (\<open>NotAPresentation\<close>).
\<close>

datatype open_error = NotAPresentation

definition openPresentation ::
  "(string \<Rightarrow> parse_outcome) \<Rightarrow> bool \<Rightarrow> string \<Rightarrow> app \<times> db_row list \<Rightarrow> open_error + app \<times> db_row list" where
  "openPresentation parse ok presentationId st =
     (case st of (s, table) \<Rightarrow>
        (case user s of
           None \<Rightarrow> Inr (console_error ''Failed to open presentation:'' NoUser s, table)
         | Some u \<Rightarrow>
             (case db_list ok (\<lambda>r. row_id r = presentationId \<and> row_userId r = user_id u) table of
                Inl error \<Rightarrow> Inr (console_error ''Failed to open presentation:'' error s, table)
              | Inr data \<Rightarrow>
                  (case data of
                     [] \<Rightarrow> Inr (s, table)
                   | r # _ \<Rightarrow>
                       (case parse (row_slides r) of
                          Throws \<Rightarrow>
                            Inr (console_error ''Failed to open presentation:'' SyntaxError s, table)
                        | NotSlides \<Rightarrow> Inl NotAPresentation
                        | Slides parsed \<Rightarrow>
                            Inr (s\<lparr>currentPresentation_app :=
                                     Some \<lparr>pres_id = row_id r, pres_title = row_title r,
                                           slides = parsed, pres_theme = row_theme r,
                                           createdAt = row_createdAt r,
                                           updatedAt = row_updatedAt r\<rparr>,
                                   currentView := Editor\<rparr>, table))))))"

text \<open>\<open>savePresentation\<close>, with \<open>JSON.stringify\<close> as its first argument. \<open>now\<close> is
  \<open>new Date().toISOString()\<close>.\<close>

definition savePresentation ::
  "(slide list \<Rightarrow> string) \<Rightarrow> bool \<Rightarrow> bool \<Rightarrow> string \<Rightarrow> presentation \<Rightarrow> app \<times> db_row list
     \<Rightarrow> app \<times> db_row list" where
  "savePresentation stringify ok_update ok_list now p st =
     (case st of (s, table) \<Rightarrow>
        (case db_update ok_update (pres_id p)
                (\<lambda>r. r\<lparr>row_title := pres_title p, row_slides := stringify (slides p),
                       row_theme := pres_theme p, row_updatedAt := now\<rparr>) table of
           Inl error \<Rightarrow> (console_error ''Failed to save presentation:'' error s, table)
         | Inr table' \<Rightarrow> loadPresentations ok_list (s\<lparr>currentPresentation_app := Some p\<rparr>, table')))"

text \<open>What the user interface shows: every cell of the state but the console.\<close>

definition ui :: "app \<Rightarrow> auth_user option \<times> bool \<times> view \<times> presentation option \<times> db_row list" where
  "ui s = (user s, loading s, currentView s, currentPresentation_app s, presentations s)"

text \<open>A signed-in user, the row of the generated deck, the application with that
  deck open in the editor, and the application of a later session, on its dashboard with
  no presentation open.\<close>

definition demo_user :: auth_user where
  "demo_user = \<lparr>user_id = ''user-1''\<rparr>"

definition demo_row :: db_row where
  "demo_row =
     \<lparr>row_id = ''pres-1700000000000'', row_title = ''Demo'', row_slides = ''[]'',
      row_theme = ''modern'', row_userId = ''user-1'', row_createdAt = ''2023-11-14T22:13:20.000Z'',
      row_updatedAt = ''2023-11-14T22:13:20.000Z''\<rparr>"

definition demo_app :: app where
  "demo_app =
     \<lparr>user = Some demo_user, loading = False, currentView = Editor,
      currentPresentation_app = Some demo_deck, presentations = [demo_row], console = []\<rparr>"

definition later_app :: app where
  "later_app =
     \<lparr>user = Some demo_user, loading = False, currentView = Dashboard,
      currentPresentation_app = None, presentations = [demo_row], console = []\<rparr>"

section \<open>Basic facts\<close>

lemma length_map_index [simp]: "length (map_index f xs) = length xs"
  by (simp add: map_index_def)

lemma nth_map_index [simp]: "i < length xs \<Longrightarrow> map_index f xs ! i = f (xs ! i) (int i)"
  by (simp add: map_index_def nth_enumerate_eq)

lemma demo_slides:
  "slides demo_deck =
    [\<lparr>slide_id = ''slide-1700000000000-0'', slide_title = ''A'', content = ''a'', imageUrl = None,
       slide_theme = ''modern'', layout = Title\<rparr>,
     \<lparr>slide_id = ''slide-1700000000000-1'', slide_title = ''B'', content = ''b'', imageUrl = None,
       slide_theme = ''modern'', layout = Content\<rparr>,
     \<lparr>slide_id = ''slide-1700000000000-2'', slide_title = ''C'', content = ''c'', imageUrl = None,
       slide_theme = ''modern'', layout = Split\<rparr>]"
  by (simp add: demo_deck_def createPresentation_slides_def map_index_def show_int_def
      show_nat.simps digit_char_def)

lemma two_deck_length: "length (slides two_deck) = 2"
  by (simp add: two_deck_def demo_slides)

section \<open>The editor\<close>

lemma filter_enumerate_above:
  "k < n \<Longrightarrow> map snd (filter (\<lambda>(index, x). index \<noteq> k) (enumerate n xs)) = xs"
  by (induction xs arbitrary: n) auto

lemma filter_enumerate_drop:
  "n \<le> k \<Longrightarrow> map snd (filter (\<lambda>(index, x). index \<noteq> k) (enumerate n xs))
     = take (k - n) xs @ drop (Suc (k - n)) xs"
proof (induction xs arbitrary: n)
  case Nil
  then show ?case by simp
next
  case (Cons x xs)
  show ?case
  proof (cases "n = k")
    case True
    then show ?thesis by (simp add: filter_enumerate_above)
  next
    case False
    with Cons.prems have "Suc n \<le> k" by simp
    then have eq: "k - n = Suc (k - Suc n)" by simp
    from Cons.IH [OF \<open>Suc n \<le> k\<close>] False show ?thesis
      by (simp add: eq)
  qed
qed

lemma filter_index_delete:
  "filter_index (\<lambda>_ index. index \<noteq> int k) xs = take k xs @ drop (Suc k) xs"
  using filter_enumerate_drop [of 0 k xs] by (simp add: filter_index_def)

lemma filter_index_negative:
  "sel < 0 \<Longrightarrow> filter_index (\<lambda>_ index. index \<noteq> sel) xs = xs"
proof -
  assume "sel < 0"
  then have "\<And>i::nat. int i \<noteq> sel" by auto
  then show ?thesis by (simp add: filter_index_def)
qed

lemma filter_index_length:
  "length (filter_index (\<lambda>_ index. index \<noteq> sel) xs)
     = (if 0 \<le> sel \<and> sel < int (length xs) then length xs - 1 else length xs)"
proof (cases "sel < 0")
  case True
  then show ?thesis by (simp add: filter_index_negative)
next
  case False
  then have "sel = int (nat sel)" by simp
  then obtain k where k: "sel = int k" ..
  show ?thesis unfolding k by (auto simp add: filter_index_delete)
qed

lemma deleteSlide_length:
  "1 \<le> length (slides (currentPresentation e)) \<Longrightarrow>
   1 \<le> length (slides (currentPresentation (deleteSlide e)))"
  by (auto simp add: deleteSlide_def Let_def filter_index_length)

lemma moveSlide_length:
  "moveSlide dir e = Inr e' \<Longrightarrow>
   length (slides (currentPresentation e')) = length (slides (currentPresentation e))"
  by (auto simp add: moveSlide_def Let_def split: if_splits)

lemma duplicateSlide_length:
  "duplicateSlide now e = Inr e' \<Longrightarrow>
   length (slides (currentPresentation e')) = Suc (length (slides (currentPresentation e)))"
  by (auto simp add: duplicateSlide_def Let_def split: if_splits)

lemma addSlide_length:
  "length (slides (currentPresentation (addSlide now e))) = Suc (length (slides (currentPresentation e)))"
  by (simp add: addSlide_def Let_def)

lemma updateSlide_length:
  "length (slides (currentPresentation (updateSlide u e))) = length (slides (currentPresentation e))"
  by (simp add: updateSlide_def Let_def)

text \<open>
  Claim C3. Every editor operation (add, duplicate, delete, move, field edit) keeps the
  slide list at a length of at least 1: an operation that starts with one slide or more
  ends with one slide or more; no operation but delete makes the list shorter; and delete
  on a list of exactly one slide returns the state it was given.
\<close>

theorem editor_keeps_one_slide:
  assumes "1 \<le> length (slides (currentPresentation e))"
    and "editor_step op e = Inr e'"
  shows "1 \<le> length (slides (currentPresentation e'))
       \<and> (op \<noteq> DeleteSlide \<longrightarrow>
            length (slides (currentPresentation e)) \<le> length (slides (currentPresentation e')))
       \<and> (length (slides (currentPresentation e)) = 1 \<longrightarrow> editor_step DeleteSlide e = Inr e)"
proof (cases op)
  case (AddSlide now)
  with assms show ?thesis by (auto simp add: addSlide_length deleteSlide_def)
next
  case (DuplicateSlide now)
  with assms duplicateSlide_length [of now e e'] show ?thesis by (auto simp add: deleteSlide_def)
next
  case DeleteSlide
  with assms deleteSlide_length [of e] show ?thesis by (auto simp add: deleteSlide_def)
next
  case (MoveSlide dir)
  with assms moveSlide_length [of dir e e'] show ?thesis by (auto simp add: deleteSlide_def)
next
  case (UpdateSlide u)
  with assms show ?thesis by (auto simp add: updateSlide_length deleteSlide_def)
next
  case (EditTitle t)
  with assms show ?thesis by (auto simp add: deleteSlide_def)
next
  case (EditTheme t)
  with assms show ?thesis by (auto simp add: deleteSlide_def)
qed

theorem editor_keeps_one_slide_witness:
  "1 \<le> length (slides (currentPresentation single_editor))
   \<and> editor_step (AddSlide 1700000005000) single_editor = Inr (addSlide 1700000005000 single_editor)
   \<and> AddSlide 1700000005000 \<noteq> DeleteSlide
   \<and> length (slides (currentPresentation single_editor)) = 1
   \<and> length (slides (currentPresentation (addSlide 1700000005000 single_editor))) = 2
   \<and> editor_step DeleteSlide single_editor = Inr single_editor"
proof -
  have h1: "1 \<le> length (slides (currentPresentation single_editor))"
    by (simp add: single_editor_def demo_slides)
  have h2: "editor_step (AddSlide 1700000005000) single_editor
      = Inr (addSlide 1700000005000 single_editor)"
    by simp
  have l: "length (slides (currentPresentation single_editor)) = 1"
    by (simp add: single_editor_def demo_slides)
  from editor_keeps_one_slide [OF h1 h2] h1 l show ?thesis
    by (simp add: addSlide_length)
qed

lemma editor_step_valid:
  assumes "selection_valid e"
  shows "\<exists>e'. editor_step op e = Inr e' \<and> selection_valid e'"
proof (cases op)
  case (AddSlide now)
  then show ?thesis by (simp add: selection_valid_def addSlide_def Let_def)
next
  case (DuplicateSlide now)
  with assms show ?thesis by (auto simp add: selection_valid_def duplicateSlide_def Let_def)
next
  case DeleteSlide
  with assms show ?thesis
    by (auto simp add: selection_valid_def deleteSlide_def Let_def filter_index_length)
next
  case (MoveSlide dir)
  with assms show ?thesis by (auto simp add: selection_valid_def moveSlide_def Let_def)
next
  case (UpdateSlide u)
  with assms show ?thesis by (simp add: selection_valid_def updateSlide_def Let_def)
next
  case (EditTitle t)
  with assms show ?thesis by (simp add: selection_valid_def)
next
  case (EditTheme t)
  with assms show ?thesis by (simp add: selection_valid_def)
qed

lemma editor_run_valid:
  "selection_valid e \<Longrightarrow> \<exists>e'. editor_run ops e = Inr e' \<and> selection_valid e'"
proof (induction ops arbitrary: e)
  case Nil
  then show ?case by simp
next
  case (Cons op ops)
  from editor_step_valid [OF Cons.prems, of op]
  obtain e1 where step: "editor_step op e = Inr e1" and v: "selection_valid e1" by blast
  from Cons.IH [OF v] step show ?case by simp
qed

text \<open>
  Claim C7. From a state whose selected index is a position of the slide list, every
  sequence of editor operations (add, duplicate, delete, move, field edit) runs without
  an error and ends in a state whose selected index is again a position of the slide
  list: exactly one slide is the selected one.
\<close>

theorem selection_stays_valid:
  assumes "selection_valid e"
  shows "\<exists>e'. editor_run ops e = Inr e' \<and> selection_valid e'
           \<and> (\<exists>!i. i < length (slides (currentPresentation e')) \<and> int i = selectedSlideIndex e')"
proof -
  from editor_run_valid [OF assms, of ops]
  obtain e' where run: "editor_run ops e = Inr e'" and v: "selection_valid e'" by blast
  from v have "nat (selectedSlideIndex e') < length (slides (currentPresentation e'))
      \<and> int (nat (selectedSlideIndex e')) = selectedSlideIndex e'"
    by (simp add: selection_valid_def nat_less_iff)
  then have "\<exists>!i. i < length (slides (currentPresentation e')) \<and> int i = selectedSlideIndex e'"
    by (intro ex1I [of _ "nat (selectedSlideIndex e')"]) auto
  with run v show ?thesis by blast
qed

theorem selection_stays_valid_witness:
  "selection_valid demo_editor
   \<and> (\<exists>e'. editor_run [DeleteSlide, DeleteSlide, DeleteSlide, AddSlide 1700000005000,
           DuplicateSlide 1700000006000, MoveSlide Up, MoveSlide Down, MoveSlide Down,
           UpdateSlide (no_updates\<lparr>upd_title := Some ''T''\<rparr>), DeleteSlide] demo_editor = Inr e'
         \<and> selection_valid e')"
proof -
  have h: "selection_valid demo_editor"
    by (simp add: selection_valid_def demo_editor_def demo_slides)
  from selection_stays_valid [OF h] h show ?thesis by blast
qed

text \<open>
  Claim C6. With a selected slide: moving it up when it is the first one, or down when it
  is the last one, returns the state unchanged. In every other case the move succeeds,
  the selected slide and its neighbour in that direction have changed places, every other
  slide is where it was, the rest of the presentation is untouched, and the selected index
  is the new position of the moved slide.
\<close>

theorem moveSlide_swaps:
  assumes "selection_valid e"
  shows "(selectedSlideIndex e = 0 \<longrightarrow> moveSlide Up e = Inr e)
       \<and> (selectedSlideIndex e = int (length (slides (currentPresentation e))) - 1 \<longrightarrow>
            moveSlide Down e = Inr e)
       \<and> (\<forall>dir. (dir = Up \<and> 0 < selectedSlideIndex e
                 \<or> dir = Down \<and> selectedSlideIndex e < int (length (slides (currentPresentation e))) - 1) \<longrightarrow>
            (\<exists>e'. moveSlide dir e = Inr e'
               \<and> selectedSlideIndex e' = selectedSlideIndex e + (if dir = Up then - 1 else 1)
               \<and> length (slides (currentPresentation e')) = length (slides (currentPresentation e))
               \<and> currentPresentation e' =
                   (currentPresentation e)\<lparr>slides := slides (currentPresentation e')\<rparr>
               \<and> slides (currentPresentation e') ! nat (selectedSlideIndex e')
                   = slides (currentPresentation e) ! nat (selectedSlideIndex e)
               \<and> slides (currentPresentation e') ! nat (selectedSlideIndex e)
                   = slides (currentPresentation e) ! nat (selectedSlideIndex e')
               \<and> (\<forall>i < length (slides (currentPresentation e)).
                     int i \<noteq> selectedSlideIndex e \<and> int i \<noteq> selectedSlideIndex e' \<longrightarrow>
                     slides (currentPresentation e') ! i = slides (currentPresentation e) ! i)))"
  using assms
  by (auto simp add: selection_valid_def moveSlide_def Let_def nth_list_update)

theorem moveSlide_swaps_witness:
  "selection_valid (demo_editor\<lparr>selectedSlideIndex := 0\<rparr>)
   \<and> moveSlide Up (demo_editor\<lparr>selectedSlideIndex := 0\<rparr>) = Inr (demo_editor\<lparr>selectedSlideIndex := 0\<rparr>)
   \<and> selection_valid (demo_editor\<lparr>selectedSlideIndex := 2\<rparr>)
   \<and> moveSlide Down (demo_editor\<lparr>selectedSlideIndex := 2\<rparr>) = Inr (demo_editor\<lparr>selectedSlideIndex := 2\<rparr>)
   \<and> selection_valid demo_editor
   \<and> (\<exists>e'. moveSlide Up demo_editor = Inr e' \<and> selectedSlideIndex e' = 0
         \<and> slides (currentPresentation e') ! 0 = slides demo_deck ! 1
         \<and> slides (currentPresentation e') ! 1 = slides demo_deck ! 0)
   \<and> (\<exists>e'. moveSlide Down demo_editor = Inr e' \<and> selectedSlideIndex e' = 2
         \<and> slides (currentPresentation e') ! 2 = slides demo_deck ! 1
         \<and> slides (currentPresentation e') ! 1 = slides demo_deck ! 2)"
proof -
  have h0: "selection_valid (demo_editor\<lparr>selectedSlideIndex := 0\<rparr>)"
    and h1: "selection_valid demo_editor"
    and h2: "selection_valid (demo_editor\<lparr>selectedSlideIndex := 2\<rparr>)"
    by (simp_all add: selection_valid_def demo_editor_def demo_slides)
  have sel: "selectedSlideIndex demo_editor = 1" "currentPresentation demo_editor = demo_deck"
    "length (slides demo_deck) = 3"
    by (simp_all add: demo_editor_def demo_slides)
  from moveSlide_swaps [OF h0]
  have a: "moveSlide Up (demo_editor\<lparr>selectedSlideIndex := 0\<rparr>) = Inr (demo_editor\<lparr>selectedSlideIndex := 0\<rparr>)"
    by simp
  from moveSlide_swaps [OF h2]
  have b: "moveSlide Down (demo_editor\<lparr>selectedSlideIndex := 2\<rparr>) = Inr (demo_editor\<lparr>selectedSlideIndex := 2\<rparr>)"
    by (simp add: sel)
  from moveSlide_swaps [OF h1]
  have c: "\<exists>e'. moveSlide Up demo_editor = Inr e' \<and> selectedSlideIndex e' = 0
         \<and> slides (currentPresentation e') ! 0 = slides demo_deck ! 1
         \<and> slides (currentPresentation e') ! 1 = slides demo_deck ! 0"
    by (simp add: sel) (use sel in fastforce)
  from moveSlide_swaps [OF h1]
  have d: "\<exists>e'. moveSlide Down demo_editor = Inr e' \<and> selectedSlideIndex e' = 2
         \<and> slides (currentPresentation e') ! 2 = slides demo_deck ! 1
         \<and> slides (currentPresentation e') ! 1 = slides demo_deck ! 2"
    by (simp add: sel) (use sel in fastforce)
  from h0 h1 h2 a b c d show ?thesis by blast
qed

subsection \<open>Slide ids\<close>

lemma digit_cases: "d < 10 \<Longrightarrow> d \<in> {0, 1, 2, 3, 4, 5, 6, 7, 8, 9::nat}"
  by auto

lemma digit_char_inj: "a < 10 \<Longrightarrow> b < 10 \<Longrightarrow> digit_char a = digit_char b \<Longrightarrow> a = b"
  using digit_cases [of a] digit_cases [of b]
  by (auto simp add: digit_char_def)

lemma digit_char_not_minus: "d < 10 \<Longrightarrow> digit_char d \<noteq> CHR ''-''"
  using digit_cases [of d] by (auto simp add: digit_char_def)

lemma show_nat_nonempty: "show_nat n \<noteq> []"
  by (subst show_nat.simps) simp

lemma show_nat_no_minus: "CHR ''-'' \<notin> set (show_nat n)"
proof (induction n rule: show_nat.induct)
  case (1 n)
  show ?case
  proof (cases "n < 10")
    case True
    then show ?thesis
      using digit_char_not_minus [of n] by (subst show_nat.simps) auto
  next
    case False
    then have "CHR ''-'' \<notin> set (show_nat (n div 10))" by (rule "1.IH")
    moreover have "digit_char (n mod 10) \<noteq> CHR ''-''" by (rule digit_char_not_minus) simp
    ultimately show ?thesis using False by (subst show_nat.simps) auto
  qed
qed

lemma show_nat_inj: "show_nat n = show_nat m \<Longrightarrow> n = m"
proof (induction n arbitrary: m rule: show_nat.induct)
  case (1 n)
  have n: "show_nat n = (if n < 10 then [digit_char n] else show_nat (n div 10) @ [digit_char (n mod 10)])"
    by (rule show_nat.simps)
  have m: "show_nat m = (if m < 10 then [digit_char m] else show_nat (m div 10) @ [digit_char (m mod 10)])"
    by (rule show_nat.simps)
  show ?case
  proof (cases "n < 10")
    case True
    show ?thesis
    proof (cases "m < 10")
      case mt: True
      with True "1.prems" n m show ?thesis by (simp add: digit_char_inj)
    next
      case False
      with True "1.prems" n m show_nat_nonempty [of "m div 10"] show ?thesis by simp
    qed
  next
    case False
    show ?thesis
    proof (cases "m < 10")
      case True
      with False "1.prems" n m show_nat_nonempty [of "n div 10"] show ?thesis by simp
    next
      case mf: False
      with False "1.prems" n m
      have eq: "show_nat (n div 10) = show_nat (m div 10)" "digit_char (n mod 10) = digit_char (m mod 10)"
        by simp_all
      from "1.IH" [OF False eq(1)] have "n div 10 = m div 10" .
      moreover from eq(2) have "n mod 10 = m mod 10" by (intro digit_char_inj) simp_all
      ultimately show ?thesis by (metis div_mult_mod_eq)
    qed
  qed
qed

lemma duplicateSlide_inserts:
  assumes "selection_valid e"
  shows "\<exists>e'. duplicateSlide now e = Inr e'
     \<and> selectedSlideIndex e' = selectedSlideIndex e + 1
     \<and> length (slides (currentPresentation e')) = length (slides (currentPresentation e)) + 1
     \<and> currentPresentation e' = (currentPresentation e)\<lparr>slides := slides (currentPresentation e')\<rparr>
     \<and> slides (currentPresentation e') ! nat (selectedSlideIndex e')
         = (slides (currentPresentation e) ! nat (selectedSlideIndex e))
             \<lparr>slide_id := ''slide-'' @ show_int now,
              slide_title := slide_title (slides (currentPresentation e) ! nat (selectedSlideIndex e))
                 @ '' (Copy)''\<rparr>
     \<and> take (nat (selectedSlideIndex e')) (slides (currentPresentation e'))
         = take (nat (selectedSlideIndex e')) (slides (currentPresentation e))
     \<and> drop (nat (selectedSlideIndex e') + 1) (slides (currentPresentation e'))
         = drop (nat (selectedSlideIndex e')) (slides (currentPresentation e))"
  using assms
  by (auto simp add: selection_valid_def duplicateSlide_def Let_def nth_append nat_add_distrib)

lemma last_segment:
  assumes "a @ CHR ''-'' # x = b @ CHR ''-'' # y"
    and "CHR ''-'' \<notin> set x" and "CHR ''-'' \<notin> set y"
  shows "x = y"
proof -
  have tw: "\<And>z. CHR ''-'' \<notin> set z \<Longrightarrow> takeWhile (\<lambda>c. c \<noteq> CHR ''-'') (rev z) = rev z"
    by (rule takeWhile_eq_all_conv [THEN iffD2]) auto
  have "rev x = takeWhile (\<lambda>c. c \<noteq> CHR ''-'') (rev (a @ CHR ''-'' # x))"
    using assms(2) by (simp add: takeWhile_tail tw)
  also have "\<dots> = takeWhile (\<lambda>c. c \<noteq> CHR ''-'') (rev (b @ CHR ''-'' # y))"
    by (simp only: assms(1))
  also have "\<dots> = rev y"
    using assms(3) by (simp add: takeWhile_tail tw)
  finally show ?thesis by simp
qed

lemma generated_id_inj:
  assumes "''slide-'' @ show_int (now (int i)) @ ''-'' @ show_int (int i)
         = ''slide-'' @ show_int (now (int j)) @ ''-'' @ show_int (int j)"
  shows "i = j"
proof -
  from assms have "(''slide-'' @ show_int (now (int i))) @ CHR ''-'' # show_nat i
      = (''slide-'' @ show_int (now (int j))) @ CHR ''-'' # show_nat j"
    by (simp add: show_int_def)
  then have "show_nat i = show_nat j"
    by (rule last_segment) (rule show_nat_no_minus)+
  then show ?thesis by (rule show_nat_inj)
qed

lemma createPresentation_slides_nth:
  "i < length slideData \<Longrightarrow>
   slide_id (createPresentation_slides now slideData ! i)
     = ''slide-'' @ show_int (now (int i)) @ ''-'' @ show_int (int i)"
  by (simp add: createPresentation_slides_def)

lemma createPresentation_slides_distinct:
  "distinct (map slide_id (createPresentation_slides now slideData))"
proof -
  have len: "length (createPresentation_slides now slideData) = length slideData"
    by (simp add: createPresentation_slides_def)
  show ?thesis
    unfolding distinct_conv_nth
  proof (intro allI impI)
    fix i j
    assume i: "i < length (map slide_id (createPresentation_slides now slideData))"
      and j: "j < length (map slide_id (createPresentation_slides now slideData))"
      and ne: "i \<noteq> j"
    show "map slide_id (createPresentation_slides now slideData) ! i
        \<noteq> map slide_id (createPresentation_slides now slideData) ! j"
    proof
      assume "map slide_id (createPresentation_slides now slideData) ! i
        = map slide_id (createPresentation_slides now slideData) ! j"
      with i j len have "''slide-'' @ show_int (now (int i)) @ ''-'' @ show_int (int i)
         = ''slide-'' @ show_int (now (int j)) @ ''-'' @ show_int (int j)"
        by (simp add: createPresentation_slides_nth)
      then have "i = j" by (rule generated_id_inj)
      with ne show False by simp
    qed
  qed
qed

lemma new_id_preserves_distinct:
  assumes "distinct (map slide_id (slides (currentPresentation e)))"
    and "''slide-'' @ show_int now \<notin> slide_id ` set (slides (currentPresentation e))"
  shows "distinct (map slide_id (slides (currentPresentation (addSlide now e))))"
    and "duplicateSlide now e = Inr e' \<Longrightarrow> distinct (map slide_id (slides (currentPresentation e')))"
proof -
  show "distinct (map slide_id (slides (currentPresentation (addSlide now e))))"
    using assms by (simp add: addSlide_def Let_def)
  assume d: "duplicateSlide now e = Inr e'"
  let ?xs = "slides (currentPresentation e)"
  let ?k = "nat (selectedSlideIndex e + 1)"
  from d obtain c where e': "slides (currentPresentation e') = take ?k ?xs @ [c] @ drop ?k ?xs"
    and c: "slide_id c = ''slide-'' @ show_int now"
    by (auto simp add: duplicateSlide_def Let_def split: if_splits)
  from assms(1) have "distinct (map slide_id (take ?k ?xs @ drop ?k ?xs))"
    by (simp only: append_take_drop_id)
  then have parts: "distinct (map slide_id (take ?k ?xs))" "distinct (map slide_id (drop ?k ?xs))"
      "slide_id ` set (take ?k ?xs) \<inter> slide_id ` set (drop ?k ?xs) = {}"
    by (simp_all only: map_append distinct_append set_map)
  from assms(2) have new: "slide_id c \<notin> slide_id ` set (take ?k ?xs)"
      "slide_id c \<notin> slide_id ` set (drop ?k ?xs)"
    using c by (auto dest: in_set_takeD in_set_dropD)
  show "distinct (map slide_id (slides (currentPresentation e')))"
    unfolding e' using parts new by (simp add: disjoint_iff)
qed

lemma show_1700000005000: "show_int 1700000005000 = ''1700000005000''"
  by (simp add: show_int_def show_nat.simps digit_char_def)

lemma demo_add:
  "addSlide 1700000005000 demo_editor =
     \<lparr>currentPresentation = demo_deck\<lparr>slides := slides demo_deck @ [added_slide]\<rparr>,
      selectedSlideIndex = 3\<rparr>"
  by (simp add: addSlide_def Let_def demo_editor_def added_slide_def show_1700000005000)
     (simp add: demo_deck_def createPresentation_slides_def)

text \<open>
  Claim C8. The ids of a generated deck are pairwise distinct
  (\<open>createPresentation_slides_distinct\<close>: the index is part of each id), and an add or a
  duplicate keeps them distinct when no slide has the id of that millisecond yet
  (\<open>new_id_preserves_distinct\<close>). But the id of an added or duplicated slide is the clock
  reading alone: two adds at one reading of the clock, 1700000005000, on the generated
  deck of three slides give a deck of five slides whose last two have the same id.
\<close>

theorem same_millisecond_ids:
  "distinct (map slide_id (slides (currentPresentation demo_editor)))
   \<and> editor_run [AddSlide 1700000005000, AddSlide 1700000005000] demo_editor
       = Inr \<lparr>currentPresentation = demo_deck\<lparr>slides := slides demo_deck @ [added_slide, added_slide]\<rparr>,
              selectedSlideIndex = 4\<rparr>
   \<and> \<not> distinct (map slide_id (slides demo_deck @ [added_slide, added_slide]))"
proof -
  have a: "distinct (map slide_id (slides (currentPresentation demo_editor)))"
    by (simp add: demo_editor_def demo_deck_def createPresentation_slides_distinct)
  have b: "addSlide 1700000005000 (addSlide 1700000005000 demo_editor)
     = \<lparr>currentPresentation = demo_deck\<lparr>slides := slides demo_deck @ [added_slide, added_slide]\<rparr>,
              selectedSlideIndex = 4\<rparr>"
    unfolding demo_add
    by (simp add: addSlide_def Let_def added_slide_def show_1700000005000)
       (simp add: demo_deck_def createPresentation_slides_def)
  from a b show ?thesis by simp
qed

text \<open>
  Claim C5. \<open>duplicateSlide_inserts\<close> above: the copy is inserted right after its source,
  with the source's fields, the title suffixed, the selection on it and the other slides
  in place. Its id is the clock reading, which need not be fresh: two duplicates at one
  reading of the clock, 1700000005000, starting from the second slide of the generated
  deck, copy that slide and then the copy, and the second copy has the id of its source,
  the first copy.
\<close>

theorem duplicate_id_not_fresh:
  "editor_run [DuplicateSlide 1700000005000, DuplicateSlide 1700000005000] demo_editor
     = Inr \<lparr>currentPresentation = demo_deck\<lparr>slides :=
               [slides demo_deck ! 0, slides demo_deck ! 1, first_copy, second_copy,
                slides demo_deck ! 2]\<rparr>,
            selectedSlideIndex = 3\<rparr>
   \<and> slide_id second_copy = slide_id first_copy
   \<and> slide_id second_copy \<in> set (map slide_id [slides demo_deck ! 0, slides demo_deck ! 1, first_copy,
         slides demo_deck ! 2])"
proof -
  have a: "duplicateSlide 1700000005000 demo_editor
     = Inr \<lparr>currentPresentation = demo_deck\<lparr>slides :=
               [slides demo_deck ! 0, slides demo_deck ! 1, first_copy, slides demo_deck ! 2]\<rparr>,
            selectedSlideIndex = 2\<rparr>"
    by (simp add: duplicateSlide_def Let_def demo_editor_def demo_slides show_1700000005000
        first_copy_def)
  have b: "duplicateSlide 1700000005000
       \<lparr>currentPresentation = demo_deck\<lparr>slides :=
               [slides demo_deck ! 0, slides demo_deck ! 1, first_copy, slides demo_deck ! 2]\<rparr>,
            selectedSlideIndex = 2\<rparr>
     = Inr \<lparr>currentPresentation = demo_deck\<lparr>slides :=
               [slides demo_deck ! 0, slides demo_deck ! 1, first_copy, second_copy,
                slides demo_deck ! 2]\<rparr>,
            selectedSlideIndex = 3\<rparr>"
    by (simp add: duplicateSlide_def Let_def show_1700000005000 first_copy_def second_copy_def)
  have run: "editor_run [DuplicateSlide 1700000005000, DuplicateSlide 1700000005000] demo_editor
     = Inr \<lparr>currentPresentation = demo_deck\<lparr>slides :=
               [slides demo_deck ! 0, slides demo_deck ! 1, first_copy, second_copy,
                slides demo_deck ! 2]\<rparr>,
            selectedSlideIndex = 3\<rparr>"
    by (simp only: editor_run.simps editor_step.simps a b sum.case)
  have ids: "slide_id second_copy = slide_id first_copy"
    by (simp add: first_copy_def second_copy_def)
  from run ids show ?thesis by simp
qed

section \<open>The viewer\<close>

lemma run_effects_fields [simp]:
  "currentSlideIndex (run_effects old new) = currentSlideIndex new"
  "isAutoPlay (run_effects old new) = isAutoPlay new"
  "isFullscreen (run_effects old new) = isFullscreen new"
  by (simp_all add: run_effects_def autoplayEffect_def controlsEffect_def Let_def)

lemma intervalCallback_valid:
  "index_valid p v \<Longrightarrow> index_valid p (intervalCallback p v)"
  by (simp add: index_valid_def intervalCallback_def)

lemma ms_step_index:
  "currentSlideIndex (ms_step p v) =
     (if interval v \<in> {Some 0, Some 1} then currentSlideIndex (intervalCallback p v)
      else currentSlideIndex v)"
  by (cases "interval v")
     (auto simp add: ms_step_def Let_def timeoutCallback_def intervalCallback_def)

lemma ms_step_valid: "index_valid p v \<Longrightarrow> index_valid p (ms_step p v)"
  using intervalCallback_valid [of p v] by (simp add: index_valid_def ms_step_index)

lemma elapse_valid: "index_valid p v \<Longrightarrow> index_valid p (elapse ms p v)"
  by (induction ms arbitrary: v) (simp_all add: ms_step_valid)

lemma handler_valid: "index_valid p v \<Longrightarrow> index_valid p (handler p ev v)"
  by (cases ev)
     (auto simp add: index_valid_def nextSlide_def prevSlide_def restart_def toggleAutoPlay_def
        toggleFullscreen_def exitFullscreen_def onEscape_def onMouseMove_def)

lemma viewer_step_valid: "index_valid p v \<Longrightarrow> index_valid p (viewer_step p ev v)"
  using handler_valid [of p v ev]
  by (cases ev) (simp_all add: elapse_valid, simp_all add: index_valid_def)

lemma viewer_run_valid: "index_valid p v \<Longrightarrow> index_valid p (viewer_run p evs v)"
  by (induction evs arbitrary: v) (simp_all add: viewer_step_valid)

text \<open>
  Claim C1. For a deck of N slides, N at least 1, the slide index of the viewer is in
  [0, N-1] at the start and after every sequence of events (next, prev, restart, the
  toggles, mouse movement, and the passing of time with its autoplay ticks); every single
  event keeps it there. The next handler adds one only when the index is below N-1, the
  prev handler subtracts one only when it is above 0, and restart sets it to 0.
\<close>

theorem viewer_index_in_range:
  assumes "1 \<le> length (slides p)"
  shows "index_valid p initial_viewer
       \<and> index_valid p (viewer_run p evs initial_viewer)
       \<and> (index_valid p v \<longrightarrow> index_valid p (viewer_step p ev v))
       \<and> currentSlideIndex (nextSlide p v) =
           (if currentSlideIndex v < int (length (slides p)) - 1 then currentSlideIndex v + 1
            else currentSlideIndex v)
       \<and> currentSlideIndex (prevSlide v) =
           (if 0 < currentSlideIndex v then currentSlideIndex v - 1 else currentSlideIndex v)
       \<and> currentSlideIndex (restart v) = 0"
proof -
  from assms have init: "index_valid p initial_viewer"
    by (auto simp add: index_valid_def initial_viewer_def)
  from viewer_run_valid [OF init] have run: "index_valid p (viewer_run p evs initial_viewer)" .
  show ?thesis
    using init run by (simp add: viewer_step_valid nextSlide_def prevSlide_def restart_def)
qed

theorem viewer_index_in_range_witness:
  "1 \<le> length (slides demo_deck)
   \<and> index_valid demo_deck initial_viewer
   \<and> index_valid demo_deck
        (viewer_run demo_deck [NextSlide, NextSlide, NextSlide, ToggleAutoPlay, Elapse 20000,
           PrevSlide, Restart] initial_viewer)
   \<and> index_valid demo_deck (viewer_step demo_deck NextSlide initial_viewer)
   \<and> currentSlideIndex (viewer_run demo_deck [NextSlide, NextSlide, NextSlide] initial_viewer) = 2"
proof -
  have h: "1 \<le> length (slides demo_deck)" by (simp add: demo_slides)
  have n: "currentSlideIndex (viewer_run demo_deck [NextSlide, NextSlide, NextSlide] initial_viewer) = 2"
    by (simp add: demo_slides nextSlide_def initial_viewer_def)
  from viewer_index_in_range [OF h] h n show ?thesis by blast
qed

subsection \<open>The first render\<close>

lemma render_throws: "run_body module_scope viewer_body = Inl (ReferenceError ''nextSlide'')"
  by (simp add: module_scope_def viewer_body_def)

lemma mount_throws: "mount p = Inl (ReferenceError ''nextSlide'')"
  by (simp add: mount_def render_throws)

subsection \<open>Time\<close>

lemma elapse_add: "elapse (a + b) p v = elapse b p (elapse a p v)"
  by (induction a arbitrary: v) simp_all

lemma elapse_last: "elapse (Suc n) p v = ms_step p (elapse n p v)"
  using elapse_add [of n 1 p v] by simp

lemma ms_step_idle:
  assumes "interval v \<notin> {Some 0, Some 1}" and "timeout v \<notin> {Some 0, Some 1}"
  shows "ms_step p v = v\<lparr>interval := map_option (\<lambda>t. t - 1) (interval v),
                   timeout := map_option (\<lambda>t. t - 1) (timeout v)\<rparr>"
  using assms
  by (cases "interval v"; cases "timeout v") (auto simp add: ms_step_def Let_def run_effects_def)

lemma elapse_idle:
  "(\<forall>t. interval v = Some t \<longrightarrow> ms < t) \<Longrightarrow> (\<forall>t. timeout v = Some t \<longrightarrow> ms < t) \<Longrightarrow>
   elapse ms p v = v\<lparr>interval := map_option (\<lambda>t. t - ms) (interval v),
                      timeout := map_option (\<lambda>t. t - ms) (timeout v)\<rparr>"
proof (induction ms arbitrary: v)
  case 0
  then show ?case by (simp add: option.map_ident)
next
  case (Suc ms)
  from Suc.prems have idle: "interval v \<notin> {Some 0, Some 1}" "timeout v \<notin> {Some 0, Some 1}"
    by auto
  let ?w = "ms_step p v"
  have w: "?w = v\<lparr>interval := map_option (\<lambda>t. t - 1) (interval v),
                   timeout := map_option (\<lambda>t. t - 1) (timeout v)\<rparr>"
    by (rule ms_step_idle [OF idle])
  have "\<forall>t. interval ?w = Some t \<longrightarrow> ms < t" "\<forall>t. timeout ?w = Some t \<longrightarrow> ms < t"
    using Suc.prems by (auto simp add: w)
  from Suc.IH [OF this] show ?case
    by (simp add: w option.map_comp comp_def)
qed

lemma elapse_fire_interval:
  assumes "interval v = Some t" and "0 < t" and "timeout v = None"
  shows "elapse t p v =
     run_effects (v\<lparr>interval := Some 0\<rparr>) (intervalCallback p (v\<lparr>interval := Some 5000\<rparr>))"
proof -
  from assms obtain d where t: "t = Suc d" by (cases t) auto
  have "elapse d p v = v\<lparr>interval := map_option (\<lambda>t. t - d) (interval v),
                      timeout := map_option (\<lambda>t. t - d) (timeout v)\<rparr>"
    by (rule elapse_idle) (simp_all add: assms t)
  then have w: "elapse d p v = v\<lparr>interval := Some 1\<rparr>" by (simp add: assms t)
  have e1: "elapse t p v = ms_step p (v\<lparr>interval := Some 1\<rparr>)"
    unfolding t elapse_last w ..
  have e2: "ms_step p (v\<lparr>interval := Some 1\<rparr>)
      = run_effects (v\<lparr>interval := Some 0, timeout := None\<rparr>)
          (intervalCallback p (v\<lparr>timeout := None, interval := Some 5000\<rparr>))"
    by (simp add: ms_step_def Let_def assms(3))
  have "v\<lparr>timeout := None\<rparr> = v" using assms(3) by simp
  then have e3: "run_effects (v\<lparr>interval := Some 0, timeout := None\<rparr>)
      (intervalCallback p (v\<lparr>timeout := None, interval := Some 5000\<rparr>))
    = run_effects (v\<lparr>interval := Some 0\<rparr>) (intervalCallback p (v\<lparr>interval := Some 5000\<rparr>))"
    by (metis viewer.update_convs(5,6) viewer.surjective)
  show ?thesis by (simp only: e1 e2 e3)
qed

lemma elapse_fire_timeout:
  assumes "timeout v = Some t" and "0 < t" and "interval v = None"
  shows "elapse t p v = v\<lparr>showControls := False, timeout := None\<rparr>"
proof -
  from assms obtain d where t: "t = Suc d" by (cases t) auto
  have "elapse d p v = v\<lparr>interval := map_option (\<lambda>t. t - d) (interval v),
                      timeout := map_option (\<lambda>t. t - d) (timeout v)\<rparr>"
    by (rule elapse_idle) (simp_all add: assms t)
  then have w: "elapse d p v = v\<lparr>timeout := Some 1\<rparr>" by (simp add: assms t)
  have "elapse t p v = ms_step p (elapse d p v)" unfolding t by (rule elapse_last)
  also have "\<dots> = v\<lparr>showControls := False, timeout := None\<rparr>"
    by (simp add: w ms_step_def Let_def assms(3) timeoutCallback_def run_effects_def)
  finally show ?thesis .
qed

subsection \<open>Autoplay\<close>

text \<open>What the interval callback does to a state, and what the handlers and effects
  would do on a deck of two slides from the state of the first render.\<close>

lemma intervalCallback_steps:
  "(currentSlideIndex v < int (length (slides p)) - 1 \<longrightarrow>
      intervalCallback p v = v\<lparr>currentSlideIndex := currentSlideIndex v + 1\<rparr>)
   \<and> (currentSlideIndex v = int (length (slides p)) - 1 \<longrightarrow>
      intervalCallback p v = v\<lparr>isAutoPlay := False\<rparr>)"
  by (simp add: intervalCallback_def)

lemma start_autoplay:
  "viewer_step p ToggleAutoPlay initial_viewer
     = initial_viewer\<lparr>isAutoPlay := True, interval := Some 5000\<rparr>"
  by (simp add: initial_viewer_def toggleAutoPlay_def run_effects_def autoplayEffect_def Let_def)

lemma two_slide_autoplay:
  assumes "length (slides p) = 2"
  shows "viewer_run p [ToggleAutoPlay, Elapse 5000] initial_viewer
           = initial_viewer\<lparr>currentSlideIndex := 1, isAutoPlay := True, interval := Some 5000\<rparr>"
    and "viewer_run p [ToggleAutoPlay, Elapse 5000, Elapse 5000] initial_viewer
           = initial_viewer\<lparr>currentSlideIndex := 1\<rparr>"
proof -
  let ?v0 = "initial_viewer\<lparr>isAutoPlay := True, interval := Some 5000\<rparr>"
  let ?v1 = "initial_viewer\<lparr>currentSlideIndex := 1, isAutoPlay := True, interval := Some 5000\<rparr>"
  have a: "elapse 5000 p ?v0 = ?v1"
    by (subst elapse_fire_interval [where t = 5000])
       (simp_all add: initial_viewer_def intervalCallback_def run_effects_def Let_def
          controlsEffect_def assms)
  have b: "elapse 5000 p ?v1 = initial_viewer\<lparr>currentSlideIndex := 1\<rparr>"
    by (subst elapse_fire_interval [where t = 5000])
       (simp_all add: initial_viewer_def intervalCallback_def run_effects_def Let_def
          controlsEffect_def autoplayEffect_def assms)
  show "viewer_run p [ToggleAutoPlay, Elapse 5000] initial_viewer = ?v1"
    by (simp only: viewer_run.simps viewer_step.simps(1) start_autoplay a)
  show "viewer_run p [ToggleAutoPlay, Elapse 5000, Elapse 5000] initial_viewer
           = initial_viewer\<lparr>currentSlideIndex := 1\<rparr>"
    by (simp only: viewer_run.simps viewer_step.simps(1) start_autoplay a b)
qed

text \<open>
  Claim C2. The interval callback does what the claim says of a tick
  (\<open>intervalCallback_steps\<close>), and from the state of the first render the handlers and
  effects would take a deck of two slides to index 1 with autoplay off in two intervals
  (\<open>two_slide_autoplay\<close>). But no render reaches its end: the dependency array of the
  key-press effect reads \<open>nextSlide\<close> above its declaration, so the first render of the
  viewer on the deck of two slides throws, there is no state, and no tick ever runs.
\<close>

theorem autoplay_never_starts:
  "mount two_deck = Inl (ReferenceError ''nextSlide'')
   \<and> run_body module_scope (take 7 viewer_body)
       = Inr (module_scope @ [''currentSlideIndex'', ''setCurrentSlideIndex'', ''isFullscreen'',
               ''setIsFullscreen'', ''isAutoPlay'', ''setIsAutoPlay'', ''showControls'',
               ''setShowControls'', ''currentSlide'', ''themeColors''])
   \<and> reads (viewer_body ! 7)
       = [''useEffect'', ''isFullscreen'', ''nextSlide'', ''prevSlide'', ''onBack'',
          ''toggleFullscreen'', ''restart'']
   \<and> declares (viewer_body ! 9) = [''nextSlide'']"
proof -
  have "mount two_deck = Inl (ReferenceError ''nextSlide'')" by (rule mount_throws)
  then show ?thesis by (simp add: viewer_body_def module_scope_def)
qed

subsection \<open>The controls\<close>

lemma mouse_move_step: "viewer_step p MouseMove v = v\<lparr>showControls := True\<rparr>"
  by (simp add: run_effects_def Let_def onMouseMove_def)

lemma handler_timeout:
  "(\<forall>ms. ev \<noteq> Elapse ms) \<Longrightarrow>
   timeout (viewer_step p ev v) =
     (if isFullscreen (viewer_step p ev v) \<noteq> isFullscreen v
         \<or> currentSlideIndex (viewer_step p ev v) \<noteq> currentSlideIndex v
      then (if isFullscreen (viewer_step p ev v) then Some 3000 else None)
      else timeout v)"
  by (cases ev)
     (auto simp add: run_effects_def Let_def autoplayEffect_def controlsEffect_def
        nextSlide_def prevSlide_def restart_def toggleAutoPlay_def toggleFullscreen_def
        exitFullscreen_def onEscape_def onMouseMove_def)

text \<open>
  Claim C10. The first render of the viewer throws, so there is no state in which the
  controls are ever hidden or shown. And in the handlers and effects themselves the
  timeout is set by the effect that depends on \<open>isFullscreen\<close> and \<open>currentSlideIndex\<close>
  alone: a mouse movement sets \<open>showControls\<close> and leaves the timeout as it is. From the
  state of the first render, in fullscreen, a mouse movement 2000 ms after the timeout was
  set leaves 1000 ms on it, and the controls are hidden 1000 ms after that movement; and
  once the timeout has expired, a mouse movement shows the controls and they are still
  shown 60000 ms later, in fullscreen, with no activity.
\<close>

theorem mouse_move_keeps_timeout:
  "mount demo_deck = Inl (ReferenceError ''nextSlide'')
   \<and> viewer_step demo_deck MouseMove v = v\<lparr>showControls := True\<rparr>
   \<and> timeout (viewer_step demo_deck MouseMove v) = timeout v
   \<and> isFullscreen (viewer_run demo_deck [ToggleFullscreen, Elapse 2000, MouseMove] initial_viewer)
   \<and> timeout (viewer_run demo_deck [ToggleFullscreen, Elapse 2000, MouseMove] initial_viewer) = Some 1000
   \<and> \<not> showControls
        (viewer_run demo_deck [ToggleFullscreen, Elapse 2000, MouseMove, Elapse 1000] initial_viewer)
   \<and> isFullscreen
        (viewer_run demo_deck [ToggleFullscreen, Elapse 3000, MouseMove, Elapse 60000] initial_viewer)
   \<and> showControls
        (viewer_run demo_deck [ToggleFullscreen, Elapse 3000, MouseMove, Elapse 60000] initial_viewer)
   \<and> timeout
        (viewer_run demo_deck [ToggleFullscreen, Elapse 3000, MouseMove, Elapse 60000] initial_viewer)
       = None"
proof -
  let ?f = "\<lparr>currentSlideIndex = 0, isFullscreen = True, isAutoPlay = False, showControls = True,
             interval = None, timeout = Some 3000\<rparr>"
  let ?g = "\<lparr>currentSlideIndex = 0, isFullscreen = True, isAutoPlay = False, showControls = True,
             interval = None, timeout = Some 1000\<rparr>"
  let ?h = "\<lparr>currentSlideIndex = 0, isFullscreen = True, isAutoPlay = False, showControls = False,
             interval = None, timeout = None\<rparr>"
  let ?k = "\<lparr>currentSlideIndex = 0, isFullscreen = True, isAutoPlay = False, showControls = True,
             interval = None, timeout = None\<rparr>"
  have s: "viewer_step demo_deck ToggleFullscreen initial_viewer = ?f"
    by (simp add: initial_viewer_def toggleFullscreen_def run_effects_def controlsEffect_def Let_def)
  have a: "elapse 2000 demo_deck ?f = ?g"
    by (subst elapse_idle) simp_all
  have b: "viewer_step demo_deck MouseMove ?g = ?g"
    by (simp add: run_effects_def Let_def onMouseMove_def)
  have c: "elapse 1000 demo_deck ?g = ?h"
    by (subst elapse_fire_timeout [where t = 1000]) simp_all
  have d: "elapse 3000 demo_deck ?f = ?h"
    by (subst elapse_fire_timeout [where t = 3000]) simp_all
  have e: "viewer_step demo_deck MouseMove ?h = ?k"
    by (simp add: run_effects_def Let_def onMouseMove_def)
  have f: "elapse 60000 demo_deck ?k = ?k"
    by (subst elapse_idle) simp_all
  have r1: "viewer_run demo_deck [ToggleFullscreen, Elapse 2000, MouseMove] initial_viewer = ?g"
    by (simp only: viewer_run.simps viewer_step.simps(1) s a b)
  have r2: "viewer_run demo_deck [ToggleFullscreen, Elapse 2000, MouseMove, Elapse 1000] initial_viewer = ?h"
    by (simp only: viewer_run.simps viewer_step.simps(1) s a b c)
  have r3: "viewer_run demo_deck [ToggleFullscreen, Elapse 3000, MouseMove, Elapse 60000] initial_viewer = ?k"
    by (simp only: viewer_run.simps viewer_step.simps(1) s d e f)
  have m: "mount demo_deck = Inl (ReferenceError ''nextSlide'')" by (rule mount_throws)
  have mv: "viewer_step demo_deck MouseMove v = v\<lparr>showControls := True\<rparr>" by (rule mouse_move_step)
  show ?thesis unfolding r1 r2 r3 using m mv by simp
qed

section \<open>Persistence\<close>

subsection \<open>Strings\<close>

lemma hex_digit_value: "d < 16 \<Longrightarrow> hex_value (hex_digit d) = Some d"
proof -
  assume "d < 16"
  then have "d \<in> {0, 1, 2, 3, 4, 5, 6, 7, 8, 9, 10, 11, 12, 13, 14, 15}" by (simp, arith)
  then show ?thesis by (auto simp add: hex_digit_def hex_value_def)
qed

lemma hex_zero: "hex_value CHR ''0'' = Some 0"
  by (simp add: hex_value_def)

lemma unicode_escape_control:
  assumes "(of_char c :: nat) < 32"
  shows "unicode_escape CHR ''0'' CHR ''0'' (hex_digit ((of_char c :: nat) div 16))
           (hex_digit ((of_char c :: nat) mod 16)) = Some (of_char c)"
proof -
  let ?n = "of_char c :: nat"
  have "?n div 16 < 16" "?n mod 16 < 16" using assms by simp_all
  then have "hex_value (hex_digit (?n div 16)) = Some (?n div 16)"
    "hex_value (hex_digit (?n mod 16)) = Some (?n mod 16)"
    by (simp_all add: hex_digit_value)
  moreover have "16 * (?n div 16) + ?n mod 16 = ?n" by simp
  ultimately show ?thesis
    by (simp add: unicode_escape_def hex_zero)
qed

lemma string_body_escape_char:
  "string_body (escape_char c @ cs) =
     (case string_body cs of None \<Rightarrow> None | Some (s, rest) \<Rightarrow> Some (of_char c # s, rest))"
proof -
  consider "c = CHR 0x08" | "c = CHR 0x09" | "c = CHR 0x0A" | "c = CHR 0x0C" | "c = CHR 0x0D"
    | "c = CHR 0x22" | "c = CHR 0x5C"
    | "c \<notin> {CHR 0x08, CHR 0x09, CHR 0x0A, CHR 0x0C, CHR 0x0D, CHR 0x22, CHR 0x5C}"
      "(of_char c :: nat) < 32"
    | "c \<notin> {CHR 0x08, CHR 0x09, CHR 0x0A, CHR 0x0C, CHR 0x0D, CHR 0x22, CHR 0x5C}"
      "\<not> (of_char c :: nat) < 32"
    by blast
  then show ?thesis
  proof cases
    case 1
    then show ?thesis by (simp add: escape_char_def simple_escape_def split: option.splits)
  next
    case 2
    then show ?thesis by (simp add: escape_char_def simple_escape_def split: option.splits)
  next
    case 3
    then show ?thesis by (simp add: escape_char_def simple_escape_def split: option.splits)
  next
    case 4
    then show ?thesis by (simp add: escape_char_def simple_escape_def split: option.splits)
  next
    case 5
    then show ?thesis by (simp add: escape_char_def simple_escape_def split: option.splits)
  next
    case 6
    then show ?thesis by (simp add: escape_char_def simple_escape_def split: option.splits)
  next
    case 7
    then show ?thesis by (simp add: escape_char_def simple_escape_def split: option.splits)
  next
    case 8
    then have "escape_char c = [CHR 0x5C, CHR ''u'', CHR ''0'', CHR ''0'',
              hex_digit ((of_char c :: nat) div 16), hex_digit ((of_char c :: nat) mod 16)]"
      by (simp add: escape_char_def)
    with 8 show ?thesis
      by (simp add: unicode_escape_control split: option.splits)
  next
    case 9
    then have "escape_char c = [c]" by (simp add: escape_char_def)
    with 9 show ?thesis by (simp split: option.splits)
  qed
qed

lemma string_body_escaped:
  "string_body (concat (map escape_char s) @ CHR 0x22 # rest) = Some (units s, rest)"
  by (induction s) (simp_all add: string_body_escape_char units_def)

subsection \<open>Tokens\<close>

lemma lex_quote: "lex (quote s @ rest) = map_option (Cons (TString (units s))) (lex rest)"
  by (subst lex.simps) (simp add: quote_def string_body_escaped is_ws_def)

lemma lex_punctuation:
  "lex (CHR ''{'' # rest) = map_option (Cons LBrace) (lex rest)"
  "lex (CHR ''}'' # rest) = map_option (Cons RBrace) (lex rest)"
  "lex (CHR ''['' # rest) = map_option (Cons LBracket) (lex rest)"
  "lex (CHR '']'' # rest) = map_option (Cons RBracket) (lex rest)"
  "lex (CHR '':'' # rest) = map_option (Cons Colon) (lex rest)"
  "lex (CHR '','' # rest) = map_option (Cons Comma) (lex rest)"
  by (subst lex.simps, simp add: is_ws_def)+

lemma lex_nil: "lex [] = Some []"
  by (subst lex.simps) simp

lemma lex_member:
  "lex (member key val @ rest) = map_option ((@) (member_tokens key val)) (lex rest)"
  by (cases "lex rest")
     (simp_all add: member_def member_tokens_def lex_quote lex_punctuation)

lemma lex_slide:
  "lex (stringify_slide sl @ rest) = map_option ((@) (slide_tokens sl)) (lex rest)"
  by (cases "imageUrl sl"; cases "lex rest")
     (simp_all add: stringify_slide_def slide_tokens_def lex_member lex_punctuation)

lemma lex_elements:
  "lex (join_elements (map stringify_slide (x # xs)) @ rest)
     = map_option ((@) (join_tokens (map slide_tokens (x # xs)))) (lex rest)"
proof (induction xs arbitrary: x)
  case Nil
  show ?case by (simp add: lex_slide)
next
  case (Cons y ys)
  have ih: "lex (join_elements (stringify_slide y # map stringify_slide ys) @ rest)
     = map_option ((@) (join_tokens (slide_tokens y # map slide_tokens ys))) (lex rest)"
    using Cons.IH [of y] by simp
  show ?case
    by (cases "lex rest") (simp_all add: lex_slide lex_punctuation ih)
qed

lemma lex_stringify:
  "lex (JSON_stringify xs) = Some (LBracket # join_tokens (map slide_tokens xs) @ [RBracket])"
proof (cases xs)
  case Nil
  then show ?thesis by (simp add: JSON_stringify_def lex_punctuation lex_nil)
next
  case (Cons x ys)
  have "lex (join_elements (map stringify_slide (x # ys)) @ '']'')
     = map_option ((@) (join_tokens (map slide_tokens (x # ys)))) (lex '']'')"
    by (rule lex_elements)
  with Cons show ?thesis
    by (simp add: JSON_stringify_def lex_punctuation lex_nil)
qed

subsection \<open>The grammar\<close>

lemma run_tokens_append:
  "run_tokens s (ts @ us) = (case run_tokens s ts of None \<Rightarrow> None | Some s' \<Rightarrow> run_tokens s' us)"
  by (induction ts arbitrary: s) (simp_all split: option.splits)

lemma run_slide_tokens:
  "run_tokens (Value st) (slide_tokens sl @ rest) = run_tokens (complete (json_of_slide sl) st) rest"
  by (cases "imageUrl sl") (simp_all add: slide_tokens_def member_tokens_def json_of_slide_def)

lemma run_elements:
  "run_tokens (Value (FArr es # st)) (join_tokens (map slide_tokens (x # xs)) @ RBracket # rest)
     = run_tokens (complete (JArray (rev es @ map json_of_slide (x # xs))) st) rest"
proof (induction xs arbitrary: x es)
  case Nil
  show ?case by (simp add: run_slide_tokens)
next
  case (Cons y ys)
  have ih: "run_tokens (Value (FArr (json_of_slide x # es) # st))
       (join_tokens (slide_tokens y # map slide_tokens ys) @ RBracket # rest)
     = run_tokens (complete (JArray (rev (json_of_slide x # es) @ map json_of_slide (y # ys))) st) rest"
    using Cons.IH [of "json_of_slide x # es" y] by simp
  show ?case
    by (simp add: run_slide_tokens ih)
qed

lemma slide_tokens_start: "\<exists>ts. slide_tokens sl = LBrace # ts"
  by (simp add: slide_tokens_def)

lemma JSON_parse_stringify:
  "JSON_parse (JSON_stringify xs) = Some (JArray (map json_of_slide xs))"
proof (cases xs)
  case Nil
  then show ?thesis by (simp add: JSON_parse_def lex_stringify)
next
  case (Cons x ys)
  obtain ts where ts: "slide_tokens x = LBrace # ts" using slide_tokens_start by blast
  then obtain us where us: "join_tokens (map slide_tokens (x # ys)) = LBrace # us"
    by (cases ys) auto
  have "run_tokens (Value [FArr []]) (join_tokens (map slide_tokens (x # ys)) @ RBracket # [])
     = run_tokens (complete (JArray (rev [] @ map json_of_slide (x # ys))) []) []"
    by (rule run_elements)
  then have r: "run_tokens (Value [FArr []]) (join_tokens (map slide_tokens (x # ys)) @ [RBracket])
     = Some (Done (JArray (map json_of_slide (x # ys))))"
    by simp
  have "run_tokens (Value []) (LBracket # join_tokens (map slide_tokens (x # ys)) @ [RBracket])
     = run_tokens (Value [FArr []]) (join_tokens (map slide_tokens (x # ys)) @ [RBracket])"
    unfolding us by simp
  with r Cons show ?thesis by (simp add: JSON_parse_def lex_stringify)
qed

subsection \<open>Slides\<close>

lemma string_of_units_units: "string_of_units (units s) = Some s"
proof -
  have "list_all (\<lambda>u. u < 256) (units s)" by (simp add: units_def list_all_iff)
  moreover have "map char_of (units s) = s" by (simp add: units_def comp_def)
  ultimately show ?thesis by (simp add: string_of_units_def)
qed

lemma layout_of_layout_text: "layout_of_text (layout_text l) = Some l"
  by (cases l) (simp_all add: layout_of_text_def)

lemma key_units:
  "units ''id'' = [105, 100]"
  "units ''title'' = [116, 105, 116, 108, 101]"
  "units ''content'' = [99, 111, 110, 116, 101, 110, 116]"
  "units ''theme'' = [116, 104, 101, 109, 101]"
  "units ''layout'' = [108, 97, 121, 111, 117, 116]"
  "units ''imageUrl'' = [105, 109, 97, 103, 101, 85, 114, 108]"
  by (simp_all add: units_def)

lemma key_distinct:
  "units ''id'' \<noteq> units ''title''"
  "units ''id'' \<noteq> units ''content''"
  "units ''id'' \<noteq> units ''theme''"
  "units ''id'' \<noteq> units ''layout''"
  "units ''id'' \<noteq> units ''imageUrl''"
  "units ''title'' \<noteq> units ''id''"
  "units ''title'' \<noteq> units ''content''"
  "units ''title'' \<noteq> units ''theme''"
  "units ''title'' \<noteq> units ''layout''"
  "units ''title'' \<noteq> units ''imageUrl''"
  "units ''content'' \<noteq> units ''id''"
  "units ''content'' \<noteq> units ''title''"
  "units ''content'' \<noteq> units ''theme''"
  "units ''content'' \<noteq> units ''layout''"
  "units ''content'' \<noteq> units ''imageUrl''"
  "units ''theme'' \<noteq> units ''id''"
  "units ''theme'' \<noteq> units ''title''"
  "units ''theme'' \<noteq> units ''content''"
  "units ''theme'' \<noteq> units ''layout''"
  "units ''theme'' \<noteq> units ''imageUrl''"
  "units ''layout'' \<noteq> units ''id''"
  "units ''layout'' \<noteq> units ''title''"
  "units ''layout'' \<noteq> units ''content''"
  "units ''layout'' \<noteq> units ''theme''"
  "units ''layout'' \<noteq> units ''imageUrl''"
  "units ''imageUrl'' \<noteq> units ''id''"
  "units ''imageUrl'' \<noteq> units ''title''"
  "units ''imageUrl'' \<noteq> units ''content''"
  "units ''imageUrl'' \<noteq> units ''theme''"
  "units ''imageUrl'' \<noteq> units ''layout''"
  by (simp_all add: key_units)

lemma slide_of_json_of_slide: "slide_of_json (json_of_slide sl) = Some sl"
  by (cases "imageUrl sl")
     (simp_all add: slide_of_json_def json_of_slide_def slide_keys_def string_member_def
        key_distinct string_of_units_units layout_of_layout_text)

lemma slides_of_json_of_slides: "slides_of_json (JArray (map json_of_slide xs)) = Some xs"
  by (induction xs) (simp_all add: slides_of_json_def slide_of_json_of_slide)

lemma JSON_round_trip: "JSON_parse_slides (JSON_stringify xs) = Slides xs"
  by (simp add: JSON_parse_slides_def JSON_parse_stringify slides_of_json_of_slides)

subsection \<open>Requests that fail\<close>

lemma ui_console_error: "ui (console_error msg error s) = ui s"
  by (simp add: ui_def console_error_def)

text \<open>
  Claim C9. When the request of a persistence operation fails, the error is caught and
  written to the console, and the state that the user interface shows is what it was
  before, as is the table: for \<open>savePresentation\<close> whose update fails, for
  \<open>loadPresentations\<close> whose list fails and for \<open>openPresentation\<close> whose list fails (with a
  user signed in, exactly one line is logged). When the update of a save succeeds and the
  list after it fails, the presentation list is still what it was. And when \<open>JSON.parse\<close>
  throws on the text of the row that an open finds, the error is logged and nothing else
  changes. This holds whatever \<open>JSON.stringify\<close> and \<open>JSON.parse\<close> do.
\<close>

theorem persistence_failure_keeps_state:
  "ui (fst (savePresentation stringify False ok_list now p (s, table))) = ui s
   \<and> snd (savePresentation stringify False ok_list now p (s, table)) = table
   \<and> console (fst (savePresentation stringify False ok_list now p (s, table)))
       = console s @ [(''Failed to save presentation:'', RequestFailed)]
   \<and> ui (fst (loadPresentations False (s, table))) = ui s
   \<and> snd (loadPresentations False (s, table)) = table
   \<and> (user s \<noteq> None \<longrightarrow>
        console (fst (loadPresentations False (s, table)))
          = console s @ [(''Failed to load presentations:'', RequestFailed)])
   \<and> openPresentation parse False presentationId (s, table)
       = Inr (console_error ''Failed to open presentation:''
                (if user s = None then NoUser else RequestFailed) s, table)
   \<and> ui (console_error msg error s) = ui s
   \<and> console (console_error msg error s) = console s @ [(msg, error)]
   \<and> presentations (fst (savePresentation stringify True False now p (s, table))) = presentations s
   \<and> (user s = Some u \<and> row_id r = presentationId \<and> row_userId r = user_id u
        \<and> parse (row_slides r) = Throws \<longrightarrow>
        openPresentation parse True presentationId (s, r # table)
          = Inr (console_error ''Failed to open presentation:'' SyntaxError s, r # table))"
  by (cases "user s")
     (simp_all add: savePresentation_def loadPresentations_def openPresentation_def db_update_def
        db_list_def console_error_def ui_def)

theorem persistence_failure_keeps_state_witness:
  "user demo_app \<noteq> None
   \<and> ui (fst (savePresentation JSON_stringify False True ''2023-11-14T22:14:00.000Z'' demo_deck
              (demo_app, [demo_row])))
       = ui demo_app
   \<and> console (fst (savePresentation JSON_stringify False True ''2023-11-14T22:14:00.000Z'' demo_deck
              (demo_app, [demo_row])))
       = [(''Failed to save presentation:'', RequestFailed)]
   \<and> ui (fst (loadPresentations False (demo_app, [demo_row]))) = ui demo_app
   \<and> console (fst (loadPresentations False (demo_app, [demo_row])))
       = [(''Failed to load presentations:'', RequestFailed)]
   \<and> openPresentation (\<lambda>text. Throws) False ''pres-1700000000000'' (demo_app, [demo_row])
       = Inr (console_error ''Failed to open presentation:'' RequestFailed demo_app, [demo_row])
   \<and> user demo_app = Some demo_user
   \<and> row_id demo_row = ''pres-1700000000000''
   \<and> row_userId demo_row = user_id demo_user
   \<and> openPresentation (\<lambda>text. Throws) True ''pres-1700000000000'' (demo_app, [demo_row])
       = Inr (console_error ''Failed to open presentation:'' SyntaxError demo_app, [demo_row])"
proof -
  have u: "user demo_app \<noteq> None" "user demo_app = Some demo_user"
    and c: "console demo_app = []"
    by (simp_all add: demo_app_def)
  have r: "row_id demo_row = ''pres-1700000000000''" "row_userId demo_row = user_id demo_user"
    by (simp_all add: demo_row_def demo_user_def)
  from persistence_failure_keeps_state
    [of JSON_stringify True "''2023-11-14T22:14:00.000Z''" demo_deck demo_app "[demo_row]"
      "\<lambda>text. Throws" "''pres-1700000000000''"]
    u c
  have 1: "ui (fst (savePresentation JSON_stringify False True ''2023-11-14T22:14:00.000Z'' demo_deck
              (demo_app, [demo_row])))
       = ui demo_app
   \<and> console (fst (savePresentation JSON_stringify False True ''2023-11-14T22:14:00.000Z'' demo_deck
              (demo_app, [demo_row])))
       = [(''Failed to save presentation:'', RequestFailed)]
   \<and> ui (fst (loadPresentations False (demo_app, [demo_row]))) = ui demo_app
   \<and> console (fst (loadPresentations False (demo_app, [demo_row])))
       = [(''Failed to load presentations:'', RequestFailed)]
   \<and> openPresentation (\<lambda>text. Throws) False ''pres-1700000000000'' (demo_app, [demo_row])
       = Inr (console_error ''Failed to open presentation:'' RequestFailed demo_app, [demo_row])"
    by simp
  from persistence_failure_keeps_state
    [of JSON_stringify True "''2023-11-14T22:14:00.000Z''" demo_deck demo_app "[]"
      "\<lambda>text. Throws" "''pres-1700000000000''" _ _ demo_user demo_row]
    u r
  have 2: "openPresentation (\<lambda>text. Throws) True ''pres-1700000000000'' (demo_app, [demo_row])
       = Inr (console_error ''Failed to open presentation:'' SyntaxError demo_app, [demo_row])"
    by blast
  from 1 2 u r show ?thesis by simp
qed

subsection \<open>Save and open\<close>

lemma save_writes_table:
  "snd (savePresentation stringify True ok_list now p (s, table))
     = map (\<lambda>r. if row_id r = pres_id p
                 then r\<lparr>row_title := pres_title p, row_slides := stringify (slides p),
                        row_theme := pres_theme p, row_updatedAt := now\<rparr>
                 else r) table"
  by (cases "user s"; cases ok_list)
     (simp_all add: savePresentation_def loadPresentations_def db_update_def db_list_def
        console_error_def)

lemma open_after_save:
  assumes "user s' = Some u"
    and "\<exists>r \<in> set table. row_id r = pres_id p \<and> row_userId r = user_id u"
  shows "\<exists>q. openPresentation JSON_parse_slides True (pres_id p)
              (s', snd (savePresentation JSON_stringify True ok_list now p (s, table)))
            = Inr (s'\<lparr>currentPresentation_app := Some q, currentView := Editor\<rparr>,
                   snd (savePresentation JSON_stringify True ok_list now p (s, table)))
          \<and> slides q = slides p \<and> pres_id q = pres_id p \<and> pres_title q = pres_title p
          \<and> pres_theme q = pres_theme p \<and> updatedAt q = now"
proof -
  let ?patch = "\<lambda>r. r\<lparr>row_title := pres_title p, row_slides := JSON_stringify (slides p),
                       row_theme := pres_theme p, row_updatedAt := now\<rparr>"
  let ?t1 = "map (\<lambda>r. if row_id r = pres_id p then ?patch r else r) table"
  have t1: "snd (savePresentation JSON_stringify True ok_list now p (s, table)) = ?t1"
    by (rule save_writes_table)
  let ?wh = "\<lambda>r. row_id r = pres_id p \<and> row_userId r = user_id u"
  from assms(2) obtain r0 where r0: "r0 \<in> set table" "?wh r0" by blast
  then have "?patch r0 \<in> set (filter ?wh ?t1)" by (auto simp add: image_iff intro!: bexI [of _ r0])
  then obtain r rs where data: "filter ?wh ?t1 = r # rs" by (cases "filter ?wh ?t1") auto
  then have "r \<in> set (filter ?wh ?t1)" by simp
  then have r: "row_id r = pres_id p" "r \<in> set ?t1" by auto
  from r(2) have "r \<in> (\<lambda>r. if row_id r = pres_id p then ?patch r else r) ` set table"
    by (simp only: set_map)
  then obtain r1 where r1: "r = (if row_id r1 = pres_id p then ?patch r1 else r1)"
    by blast
  with r(1) have patched: "r = ?patch r1"
    by (cases "row_id r1 = pres_id p") simp_all
  with r(1) have blob: "row_slides r = JSON_stringify (slides p)" "row_title r = pres_title p"
    "row_theme r = pres_theme p" "row_id r = pres_id p" "row_updatedAt r = now"
    by simp_all
  have rt: "JSON_parse_slides (JSON_stringify (slides p)) = Slides (slides p)"
    by (rule JSON_round_trip)
  let ?q = "\<lparr>pres_id = row_id r, pres_title = row_title r, slides = slides p,
            pres_theme = row_theme r, createdAt = row_createdAt r, updatedAt = row_updatedAt r\<rparr>"
  have "openPresentation JSON_parse_slides True (pres_id p) (s', ?t1)
      = Inr (s'\<lparr>currentPresentation_app := Some ?q, currentView := Editor\<rparr>, ?t1)"
    by (simp add: openPresentation_def assms(1) db_list_def data blob(1) rt)
  with blob show ?thesis unfolding t1 by (intro exI [of _ ?q]) simp
qed

text \<open>
  Claim C4. For every slide list, the text that a save writes (\<open>JSON.stringify\<close>) is read
  back by a load (\<open>JSON.parse\<close>) as the same slides in the same order. And through the
  gateway: after a save whose update succeeds, on a table where the user owns a row with
  the id of the presentation, an open of that id whose list succeeds, from whatever
  state of the application with that user signed in, shows the editor on a presentation
  with the slides that were saved, in their order, and with the id, title, theme and
  time of update that were saved; nothing else of the state changes.
\<close>

theorem save_load_round_trip:
  "JSON_parse_slides (JSON_stringify xs) = Slides xs
   \<and> (user s' = Some u \<and> (\<exists>r \<in> set table. row_id r = pres_id p \<and> row_userId r = user_id u) \<longrightarrow>
        (\<exists>q. openPresentation JSON_parse_slides True (pres_id p)
                (s', snd (savePresentation JSON_stringify True ok_list now p (s, table)))
              = Inr (s'\<lparr>currentPresentation_app := Some q, currentView := Editor\<rparr>,
                     snd (savePresentation JSON_stringify True ok_list now p (s, table)))
            \<and> slides q = slides p \<and> pres_id q = pres_id p \<and> pres_title q = pres_title p
            \<and> pres_theme q = pres_theme p \<and> updatedAt q = now))"
proof (intro conjI impI)
  show "JSON_parse_slides (JSON_stringify xs) = Slides xs" by (rule JSON_round_trip)
next
  assume h: "user s' = Some u \<and> (\<exists>r \<in> set table. row_id r = pres_id p \<and> row_userId r = user_id u)"
  then have "user s' = Some u" "\<exists>r \<in> set table. row_id r = pres_id p \<and> row_userId r = user_id u"
    by simp_all
  then show "\<exists>q. openPresentation JSON_parse_slides True (pres_id p)
                (s', snd (savePresentation JSON_stringify True ok_list now p (s, table)))
              = Inr (s'\<lparr>currentPresentation_app := Some q, currentView := Editor\<rparr>,
                     snd (savePresentation JSON_stringify True ok_list now p (s, table)))
            \<and> slides q = slides p \<and> pres_id q = pres_id p \<and> pres_title q = pres_title p
            \<and> pres_theme q = pres_theme p \<and> updatedAt q = now"
    by (rule open_after_save)
qed

theorem save_load_round_trip_witness:
  "user later_app = Some demo_user
   \<and> currentPresentation_app later_app = None
   \<and> demo_row \<in> set [demo_row]
   \<and> row_id demo_row = pres_id (demo_deck\<lparr>slides := slides demo_deck @ [added_slide]\<rparr>)
   \<and> row_userId demo_row = user_id demo_user
   \<and> JSON_parse_slides (JSON_stringify (slides demo_deck @ [added_slide]))
       = Slides (slides demo_deck @ [added_slide])
   \<and> (\<exists>q. openPresentation JSON_parse_slides True ''pres-1700000000000''
              (later_app,
               snd (savePresentation JSON_stringify True True ''2023-11-14T22:14:00.000Z''
                      (demo_deck\<lparr>slides := slides demo_deck @ [added_slide]\<rparr>)
                      (demo_app, [demo_row])))
            = Inr (later_app\<lparr>currentPresentation_app := Some q, currentView := Editor\<rparr>,
                   snd (savePresentation JSON_stringify True True ''2023-11-14T22:14:00.000Z''
                          (demo_deck\<lparr>slides := slides demo_deck @ [added_slide]\<rparr>)
                          (demo_app, [demo_row])))
          \<and> slides q = slides demo_deck @ [added_slide])"
proof -
  let ?p = "demo_deck\<lparr>slides := slides demo_deck @ [added_slide]\<rparr>"
  have h: "user later_app = Some demo_user" "currentPresentation_app later_app = None"
    "demo_row \<in> set [demo_row]"
    "row_id demo_row = pres_id ?p" "row_userId demo_row = user_id demo_user"
    by (simp_all add: later_app_def demo_row_def demo_deck_def demo_user_def)
  then have ex: "\<exists>r \<in> set [demo_row]. row_id r = pres_id ?p \<and> row_userId r = user_id demo_user"
    by blast
  have id: "pres_id ?p = ''pres-1700000000000''" by (simp add: demo_deck_def)
  have sl: "slides ?p = slides demo_deck @ [added_slide]" by simp
  from save_load_round_trip
    [of "slides demo_deck @ [added_slide]" later_app demo_user "[demo_row]" ?p True
      "''2023-11-14T22:14:00.000Z''" demo_app] h(1) ex
  have "JSON_parse_slides (JSON_stringify (slides demo_deck @ [added_slide]))
       = Slides (slides demo_deck @ [added_slide])"
    and "\<exists>q. openPresentation JSON_parse_slides True (pres_id ?p)
              (later_app,
               snd (savePresentation JSON_stringify True True ''2023-11-14T22:14:00.000Z'' ?p
                      (demo_app, [demo_row])))
            = Inr (later_app\<lparr>currentPresentation_app := Some q, currentView := Editor\<rparr>,
                   snd (savePresentation JSON_stringify True True ''2023-11-14T22:14:00.000Z'' ?p
                          (demo_app, [demo_row])))
          \<and> slides q = slides ?p"
    by blast+
  with h show ?thesis unfolding id sl by blast
qed

end
